theory Spec2Isabelle
  imports Complex_Main
begin

section \<open>The feature showcase of src/components/feature-showcase.tsx\<close>

text \<open>
  The component keeps one piece of React state (\<open>active\<close>, the index of the feature
  shown), one ref with the cached section metrics (\<open>metricsRef\<close>), one ref to the
  section's DOM element (\<open>sectionRef\<close>) and, inside its effect, the throttle flag
  \<open>ticking\<close>. The handlers are modelled as functions from a state to the next state.

  Numbers. A JavaScript \<open>number\<close> is a binary64 double; every finite double is a
  rational, and the model's numbers are rationals (\<open>rat\<close>). The arithmetic of the
  handlers is given twice. \<open>progress\<close>, \<open>next_index\<close>, \<open>onScroll\<close> and \<open>scrollToIndex\<close>
  compute with the exact operations; they agree with the code wherever no rounding
  takes place, and carry the properties that rest on comparisons, on the clamp and on
  the integer offsets of the DOM. \<open>progress64\<close>, \<open>next_index64\<close>, \<open>onScroll64\<close> and
  \<open>scrollToIndex64\<close> round every operation of lines 86-87 and 108-109 to binary64, as
  JavaScript does; the properties of the computed index and of the scroll target are
  stated for them. The length of the feature array (the source's \<open>total\<close>, written
  \<open>tot\<close> here) is a \<open>nat\<close>; an index (the argument of \<open>scrollToIndex\<close>, the value of
  \<open>active\<close>) is an \<open>int\<close>, since \<open>active - 1\<close> may be negative. A quotient is evaluated
  by the source only where its divisor is not zero (lines 86 and 107); the properties
  below are stated there.

  The environment. The browser's values that the handlers read are parameters: the
  scroll offset \<open>y\<close> (\<open>window.scrollY || window.pageYOffset\<close>, two names of the same
  value) and the layout of the section at the moment of the call. The request
  \<open>window.scrollTo\<close> is an output of the handler that issues it.

  The closure variable \<open>active\<close> that the scroll callback compares with is taken to be
  the current value of the state (the effect is re-created whenever \<open>active\<close> changes).
\<close>

subsection \<open>Data\<close>

text \<open>\<open>type Feature\<close> (lines 6-11); \<open>fid\<close> is its field \<open>id\<close>.\<close>

record feature =
  fid :: int
  title :: string
  body :: string
  image :: string

text \<open>
  The default list \<open>FEATURES\<close> (lines 13-44). The hyphen of the second title is the
  character U+2011, given here by its three UTF-8 bytes.
\<close>

definition FEATURES :: "feature list" where
  "FEATURES =
     [\<lparr>fid = 1, title = ''Smart Inbox'',
       body = ''Automatically prioritizes important conversations so you focus on what matters first.'',
       image = ''/smart-inbox-screen.png''\<rparr>,
      \<lparr>fid = 2, title = ''One'' @ [CHR 0xE2, CHR 0x80, CHR 0x91] @ ''Tap Actions'',
       body = ''Archive, snooze, or delegate messages with a single tap to keep your inbox clean.'',
       image = ''/one-tap-actions-screen.png''\<rparr>,
      \<lparr>fid = 3, title = ''AI Summaries'',
       body = ''Get concise summaries of long threads so you can catch up in seconds, not minutes.'',
       image = ''/ai-summaries-screen.png''\<rparr>,
      \<lparr>fid = 4, title = ''Schedule Send'',
       body = ''Compose now and send later across time zones, so every message lands at the right time.'',
       image = ''/schedule-send-screen.png''\<rparr>,
      \<lparr>fid = 5, title = ''Smart Templates'',
       body = ''Personalized, reusable snippets that adapt tone and context automatically.'',
       image = ''/smart-templates-screen.png''\<rparr>]"

text \<open>The object held by \<open>metricsRef\<close> (lines 60-65).\<close>

record metrics =
  startY :: rat
  endY :: rat
  height :: rat
  viewport :: rat

text \<open>
  What \<open>computeMetrics\<close> reads from the DOM: \<open>el.offsetTop\<close>, \<open>el.offsetHeight\<close> and
  \<open>window.innerHeight\<close>.
\<close>

record layout =
  offsetTop :: rat
  offsetHeight :: rat
  innerHeight :: rat

text \<open>
  The state of one component instance: \<open>active\<close> (line 56), \<open>metricsRef.current\<close>,
  whether \<open>sectionRef.current\<close> is an element (\<open>mounted\<close>) and the flag \<open>ticking\<close> of the
  effect (line 97), which is true exactly while a frame callback is queued.
\<close>

record state =
  active :: int
  metricsRef :: metrics
  mounted :: bool
  ticking :: bool

text \<open>The argument of \<open>window.scrollTo\<close> at line 88; the behavior is always "smooth".\<close>

datatype scroll_request = SmoothScrollTo (target: rat)

text \<open>The state before the first effect: \<open>useState(0)\<close>, the zero metrics, no element.\<close>

definition init :: state where
  "init = \<lparr>active = 0,
           metricsRef = \<lparr>startY = 0, endY = 0, height = 0, viewport = 0\<rparr>,
           mounted = False, ticking = False\<rparr>"

subsection \<open>Arithmetic of the handlers\<close>

text \<open>
  \<open>Math.round\<close>: the integer nearest to the argument, the larger one of the two when
  the argument is halfway between them.
\<close>

definition js_round :: "rat \<Rightarrow> int" where
  "js_round x = \<lfloor>x + 1 / 2\<rfloor>"

subsection \<open>Double-precision rounding\<close>

text \<open>
  The nearest integer, the even one of the two at a tie (the rounding of IEEE 754
  arithmetic).
\<close>

definition round_even :: "rat \<Rightarrow> int" where
  "round_even r =
     (let f = \<lfloor>r\<rfloor>; d = r - of_int f
      in if d < 1 / 2 then f else if 1 / 2 < d then f + 1
         else if even f then f else f + 1)"

text \<open>
  The binary exponent of a positive number, \<open>ilog2 x = e\<close> with
  \<open>2 ^ e \<le> x < 2 ^ (e + 1)\<close>: by halving from 1 upwards, by doubling below 1.
\<close>

function log2_ge1 :: "rat \<Rightarrow> int" where
  "log2_ge1 x = (if 2 \<le> x then log2_ge1 (x / 2) + 1 else 0)"
  by pat_completeness auto
termination
proof (relation "measure (\<lambda>x. nat \<lfloor>x\<rfloor>)")
  show "wf (measure (\<lambda>x::rat. nat \<lfloor>x\<rfloor>))" by simp
next
  fix x :: rat
  assume "2 \<le> x"
  then have "\<lfloor>x / 2\<rfloor> < \<lfloor>x\<rfloor>" and "0 < \<lfloor>x\<rfloor>" by linarith+
  then show "(x / 2, x) \<in> measure (\<lambda>x. nat \<lfloor>x\<rfloor>)" by simp
qed

function log2_lt1 :: "rat \<Rightarrow> int" where
  "log2_lt1 x = (if 0 < x \<and> x < 1 then log2_lt1 (2 * x) - 1 else 0)"
  by pat_completeness auto
termination
proof (relation "measure (\<lambda>x. nat \<lceil>1 / x\<rceil>)")
  show "wf (measure (\<lambda>x::rat. nat \<lceil>1 / x\<rceil>))" by simp
next
  fix x :: rat
  assume a: "0 < x \<and> x < 1"
  then have w: "1 < 1 / x" by simp
  then have c: "2 \<le> \<lceil>1 / x\<rceil>" by linarith
  have "1 / (2 * x) = (1 / x) / 2" by simp
  also have "\<dots> \<le> of_int \<lceil>1 / x\<rceil> / 2" by (simp add: divide_right_mono)
  also have "\<dots> \<le> of_int (\<lceil>1 / x\<rceil> - 1)" using c by simp
  finally have "\<lceil>1 / (2 * x)\<rceil> \<le> \<lceil>1 / x\<rceil> - 1" by (simp only: ceiling_le_iff)
  then have "nat \<lceil>1 / (2 * x)\<rceil> < nat \<lceil>1 / x\<rceil>" using c by linarith
  then show "(2 * x, x) \<in> measure (\<lambda>x. nat \<lceil>1 / x\<rceil>)" by (simp only: in_measure)
qed

definition ilog2 :: "rat \<Rightarrow> int" where
  "ilog2 x = (if 1 \<le> x then log2_ge1 x else log2_lt1 x)"

text \<open>
  \<open>fl x\<close> is the binary64 number nearest to \<open>x\<close>: 53 significant bits, so a multiple of
  \<open>2 ^ (e - 52)\<close> in the binade of \<open>x\<close>. Every JavaScript operation \<open>a op b\<close> on finite
  doubles is \<open>fl\<close> of the exact result. The exponent range (overflow beyond about
  \<open>1.8e308\<close>, subnormals below about \<open>2.2e-308\<close>) is not modelled: the pixel offsets
  and quotients of this component lie far inside it.
\<close>

definition fl_pos :: "rat \<Rightarrow> rat" where
  "fl_pos x = (let q = 2 powi (ilog2 x - 52) in of_int (round_even (x / q)) * q)"

definition fl :: "rat \<Rightarrow> rat" where
  "fl x = (if x = 0 then 0 else if x < 0 then - fl_pos (- x) else fl_pos x)"

declare log2_ge1.simps [simp del] log2_lt1.simps [simp del]

subsection \<open>Lines 107-109\<close>

text \<open>The condition of line 107.\<close>

definition in_range :: "metrics \<Rightarrow> rat \<Rightarrow> bool" where
  "in_range m y \<longleftrightarrow> y \<ge> startY m \<and> y \<le> endY m \<and> endY m > startY m"

text \<open>Lines 108-109, \<open>progress\<close> and \<open>next\<close>, in exact arithmetic.\<close>

definition progress :: "metrics \<Rightarrow> rat \<Rightarrow> rat" where
  "progress m y = (y - startY m) / (endY m - startY m)"

definition next_index :: "nat \<Rightarrow> metrics \<Rightarrow> rat \<Rightarrow> int" where
  "next_index tot m y = js_round (progress m y * (of_nat tot - 1))"

text \<open>
  The same two lines as JavaScript evaluates them: the two differences, the quotient
  and the product are each rounded to binary64. (\<open>total - 1\<close> is an integer below
  \<open>2 ^ 32\<close>, hence exact.)
\<close>

definition progress64 :: "metrics \<Rightarrow> rat \<Rightarrow> rat" where
  "progress64 m y = fl (fl (y - startY m) / fl (endY m - startY m))"

definition next_index64 :: "nat \<Rightarrow> metrics \<Rightarrow> rat \<Rightarrow> int" where
  "next_index64 tot m y = js_round (fl (progress64 m y * (of_nat tot - 1)))"

subsection \<open>computeMetrics (lines 67-77)\<close>

definition computeMetrics :: "layout \<Rightarrow> state \<Rightarrow> state" where
  "computeMetrics lay s =
     (if \<not> mounted s then s
      else s\<lparr>metricsRef :=
               \<lparr>startY = offsetTop lay,
                endY = offsetTop lay + offsetHeight lay - innerHeight lay,
                height = offsetHeight lay,
                viewport = innerHeight lay\<rparr>\<rparr>)"

subsection \<open>scrollToIndex (lines 79-91), onPrev and onNext (lines 135-136)\<close>

text \<open>
  The result is the state after \<open>setActive(i)\<close> and the scroll request, if one is
  issued (\<open>None\<close> for the early return of line 85).
\<close>

definition scrollToIndex :: "nat \<Rightarrow> int \<Rightarrow> state \<Rightarrow> state \<times> scroll_request option" where
  "scrollToIndex tot nextIndex s =
     (let i = max 0 (min (int tot - 1) nextIndex);
          s' = s\<lparr>active := i\<rparr>;
          m = metricsRef s
      in if endY m \<le> startY m then (s', None)
         else let t = (if tot > 1 then of_int i / (of_nat tot - 1) else 0);
                  target = startY m + t * (endY m - startY m)
              in (s', Some (SmoothScrollTo target)))"

text \<open>
  The clamp of the specification, \<open>clamp(x, lo, hi)\<close>, written from its words and not
  from line 81.
\<close>

definition clamp :: "int \<Rightarrow> int \<Rightarrow> int \<Rightarrow> int" where
  "clamp x lo hi = (if x < lo then lo else if hi < x then hi else x)"

text \<open>
  \<open>scrollToIndex\<close> with lines 86-87 as JavaScript evaluates them: the quotient, the
  difference, the product and the sum are each rounded to binary64.
\<close>

definition scrollToIndex64 :: "nat \<Rightarrow> int \<Rightarrow> state \<Rightarrow> state \<times> scroll_request option" where
  "scrollToIndex64 tot nextIndex s =
     (let i = max 0 (min (int tot - 1) nextIndex);
          s' = s\<lparr>active := i\<rparr>;
          m = metricsRef s
      in if endY m \<le> startY m then (s', None)
         else let t = (if tot > 1 then fl (of_int i / (of_nat tot - 1)) else 0);
                  target = fl (startY m + fl (t * fl (endY m - startY m)))
              in (s', Some (SmoothScrollTo target)))"

definition onPrev :: "nat \<Rightarrow> state \<Rightarrow> state \<times> scroll_request option" where
  "onPrev tot s = scrollToIndex tot (active s - 1) s"

definition onNext :: "nat \<Rightarrow> state \<Rightarrow> state \<times> scroll_request option" where
  "onNext tot s = scrollToIndex tot (active s + 1) s"

subsection \<open>The scroll listener (lines 94-133)\<close>

text \<open>
  The callback given to \<open>requestAnimationFrame\<close> (lines 103-114), run at scroll
  offset \<open>y\<close>.
\<close>

definition onScroll_frame :: "nat \<Rightarrow> rat \<Rightarrow> state \<Rightarrow> state" where
  "onScroll_frame tot y s =
     (let m = metricsRef s;
          s' = (if in_range m y
                then (let next = next_index tot m y
                      in if next \<noteq> active s then s\<lparr>active := next\<rparr> else s)
                else s)
      in s'\<lparr>ticking := False\<rparr>)"

text \<open>
  \<open>onScroll\<close> (lines 98-116): the two guards, then the frame is requested; its callback
  runs at the offset \<open>y\<close> the window has by then.
\<close>

definition onScroll :: "nat \<Rightarrow> rat \<Rightarrow> state \<Rightarrow> state" where
  "onScroll tot y s =
     (if \<not> mounted s then s
      else if ticking s then s
      else onScroll_frame tot y (s\<lparr>ticking := True\<rparr>))"

text \<open>The frame callback and \<open>onScroll\<close> with the binary64 arithmetic of lines 108-109.\<close>

definition onScroll_frame64 :: "nat \<Rightarrow> rat \<Rightarrow> state \<Rightarrow> state" where
  "onScroll_frame64 tot y s =
     (let m = metricsRef s;
          s' = (if in_range m y
                then (let next = next_index64 tot m y
                      in if next \<noteq> active s then s\<lparr>active := next\<rparr> else s)
                else s)
      in s'\<lparr>ticking := False\<rparr>)"

definition onScroll64 :: "nat \<Rightarrow> rat \<Rightarrow> state \<Rightarrow> state" where
  "onScroll64 tot y s =
     (if \<not> mounted s then s
      else if ticking s then s
      else onScroll_frame64 tot y (s\<lparr>ticking := True\<rparr>))"

text \<open>\<open>onResize\<close> (lines 118-122).\<close>

definition onResize :: "nat \<Rightarrow> layout \<Rightarrow> rat \<Rightarrow> state \<Rightarrow> state" where
  "onResize tot lay y s = onScroll tot y (computeMetrics lay s)"

text \<open>
  The body of the effect (lines 95-97 and 127): \<open>computeMetrics()\<close>, a fresh
  \<open>ticking = false\<close>, and the initial \<open>onScroll()\<close>. It runs once the section element
  is attached to \<open>sectionRef\<close>.
\<close>

definition effect :: "nat \<Rightarrow> layout \<Rightarrow> rat \<Rightarrow> state \<Rightarrow> state" where
  "effect tot lay y s =
     onScroll tot y ((computeMetrics lay (s\<lparr>mounted := True\<rparr>))\<lparr>ticking := False\<rparr>)"

subsection \<open>Rendering (lines 138-157)\<close>

text \<open>
  \<open>features[active]\<close>: \<open>undefined\<close> (here \<open>None\<close>) outside the array. Reading
  \<open>current.title\<close> of \<open>undefined\<close> throws a TypeError, so the render fails.
\<close>

datatype error = TypeError

definition current :: "feature list \<Rightarrow> int \<Rightarrow> feature option" where
  "current features a =
     (if 0 \<le> a \<and> a < int (length features) then Some (features ! nat a) else None)"

text \<open>The number before \<open>vh\<close> in the height style of line 144.\<close>

definition section_height_vh :: "nat \<Rightarrow> nat" where
  "section_height_vh tot = max 1 tot * 100"

text \<open>
  What the render shows of the state: the section's height, the number of the label
  (line 152), the heading and the description.
\<close>

record view =
  height_vh :: nat
  label_no :: int
  heading :: string
  description :: string

definition render :: "feature list \<Rightarrow> state \<Rightarrow> error + view" where
  "render features s =
     (case current features (active s) of
        None \<Rightarrow> Inl TypeError
      | Some f \<Rightarrow>
          Inr \<lparr>height_vh = section_height_vh (length features),
               label_no = active s + 1,
               heading = title f,
               description = body f\<rparr>)"

subsection \<open>Sequences of events\<close>

datatype event =
    Effect layout rat
  | Scroll rat
  | Resize layout rat
  | NavigateTo int
  | Prev
  | Next

fun step :: "nat \<Rightarrow> state \<Rightarrow> event \<Rightarrow> state" where
  "step tot s (Effect lay y) = effect tot lay y s"
| "step tot s (Scroll y) = onScroll tot y s"
| "step tot s (Resize lay y) = onResize tot lay y s"
| "step tot s (NavigateTo n) = fst (scrollToIndex tot n s)"
| "step tot s Prev = fst (onPrev tot s)"
| "step tot s Next = fst (onNext tot s)"

definition run :: "nat \<Rightarrow> event list \<Rightarrow> state \<Rightarrow> state" where
  "run tot evs s = foldl (step tot) s evs"

text \<open>The invariant of the state: \<open>active\<close> is an index of the feature array.\<close>

definition valid_index :: "nat \<Rightarrow> int \<Rightarrow> bool" where
  "valid_index tot a \<longleftrightarrow> 0 \<le> a \<and> a \<le> int tot - 1"

section \<open>Properties\<close>

subsection \<open>Rounding\<close>



lemma js_round_bounds:
  assumes "0 \<le> x" and "x \<le> of_int n"
  shows "0 \<le> js_round x \<and> js_round x \<le> n"
  using assms unfolding js_round_def by linarith

lemma js_round_nearest:
  "of_int (js_round x) - 1 / 2 \<le> x \<and> x < of_int (js_round x) + 1 / 2"
  unfolding js_round_def by linarith

lemma js_round_eq_iff:
  "js_round x = k \<longleftrightarrow> of_int k - 1 / 2 \<le> x \<and> x < of_int k + 1 / 2"
  unfolding js_round_def by linarith

subsection \<open>Rounding to binary64\<close>

lemma pow2_pos: "(0::rat) < 2 powi k"
  by simp

lemma pow2_Suc: "(2::rat) powi (k + 1) = 2 * 2 powi k"
  by (rule power_int_add_1') simp

lemma pow2_less_cancel:
  assumes "(2::rat) powi a < 2 powi b"
  shows "a < b"
proof (rule ccontr)
  assume "\<not> a < b"
  then have "b \<le> a" by simp
  then have "(2::rat) powi b \<le> 2 powi a"
    by (rule power_int_increasing) simp
  with assms show False by simp
qed

lemma log2_ge1_bounds:
  "1 \<le> x \<Longrightarrow> 2 powi (log2_ge1 x) \<le> x \<and> x < 2 powi (log2_ge1 x + 1)"
proof (induction x rule: log2_ge1.induct)
  case (1 x)
  show ?case
  proof (cases "2 \<le> x")
    case True
    then have "1 \<le> x / 2" by simp
    from "1.IH" [OF True this]
    have ih: "2 powi (log2_ge1 (x / 2)) \<le> x / 2" "x / 2 < 2 powi (log2_ge1 (x / 2) + 1)"
      by simp_all
    have e: "log2_ge1 x = log2_ge1 (x / 2) + 1"
      using True by (subst log2_ge1.simps) simp
    note p = pow2_Suc [of "log2_ge1 (x / 2)"] pow2_Suc [of "log2_ge1 (x / 2) + 1"]
    show ?thesis
      unfolding e using ih p by linarith
  next
    case False
    then have e: "log2_ge1 x = 0"
      by (subst log2_ge1.simps) simp
    show ?thesis
      unfolding e using False "1.prems" by simp
  qed
qed

lemma log2_lt1_bounds:
  "0 < x \<Longrightarrow> x < 2 \<Longrightarrow> 2 powi (log2_lt1 x) \<le> x \<and> x < 2 powi (log2_lt1 x + 1)"
proof (induction x rule: log2_lt1.induct)
  case (1 x)
  show ?case
  proof (cases "x < 1")
    case True
    with "1.prems" have c: "0 < x \<and> x < 1" by simp
    have "0 < 2 * x" "2 * x < 2" using c by simp_all
    from "1.IH" [OF c this]
    have ih: "2 powi (log2_lt1 (2 * x)) \<le> 2 * x" "2 * x < 2 powi (log2_lt1 (2 * x) + 1)"
      by simp_all
    have e: "log2_lt1 x = log2_lt1 (2 * x) - 1"
      using c by (subst log2_lt1.simps) simp
    have p: "(2::rat) powi (log2_lt1 (2 * x)) = 2 * 2 powi (log2_lt1 (2 * x) - 1)"
      using pow2_Suc [of "log2_lt1 (2 * x) - 1"] by simp
    have p': "(2::rat) powi (log2_lt1 (2 * x) - 1 + 1) = 2 powi (log2_lt1 (2 * x))"
      by simp
    have p'': "(2::rat) powi (log2_lt1 (2 * x) + 1) = 2 * 2 powi (log2_lt1 (2 * x))"
      by (rule pow2_Suc)
    show ?thesis
      unfolding e p' using ih p p'' by linarith
  next
    case False
    then have e: "log2_lt1 x = 0"
      by (subst log2_lt1.simps) simp
    show ?thesis
      unfolding e using False "1.prems" by simp
  qed
qed

lemma ilog2_bounds:
  assumes "0 < x"
  shows "2 powi (ilog2 x) \<le> x" and "x < 2 powi (ilog2 x + 1)"
  using assms log2_ge1_bounds [of x] log2_lt1_bounds [of x]
  unfolding ilog2_def by (auto split: if_splits)

lemma ilog2_unique:
  assumes "2 powi k \<le> x" and "x < 2 powi (k + 1)"
  shows "ilog2 x = k"
proof -
  have pos: "0 < x"
    using assms(1) pow2_pos [of k] by linarith
  note b = ilog2_bounds [OF pos]
  have "(2::rat) powi k < 2 powi (ilog2 x + 1)"
    using assms(1) b(2) by linarith
  then have 1: "k < ilog2 x + 1"
    by (rule pow2_less_cancel)
  have "(2::rat) powi ilog2 x < 2 powi (k + 1)"
    using assms(2) b(1) by linarith
  then have 2: "ilog2 x < k + 1"
    by (rule pow2_less_cancel)
  from 1 2 show ?thesis by simp
qed

lemma round_even_floor_le: "\<lfloor>r\<rfloor> \<le> round_even r"
  unfolding round_even_def by (simp add: Let_def)

lemma round_even_le_ceiling: "round_even r \<le> \<lceil>r\<rceil>"
  unfolding round_even_def Let_def by (auto; linarith)

lemma round_even_ge:
  assumes "of_int n \<le> r"
  shows "n \<le> round_even r"
proof -
  from assms have "n \<le> \<lfloor>r\<rfloor>" by (simp add: le_floor_iff)
  with round_even_floor_le [of r] show ?thesis by linarith
qed

lemma round_even_le:
  assumes "r \<le> of_int n"
  shows "round_even r \<le> n"
proof -
  from assms have "\<lceil>r\<rceil> \<le> n" by (simp add: ceiling_le_iff)
  with round_even_le_ceiling [of r] show ?thesis by linarith
qed

lemma round_even_error: "\<bar>of_int (round_even r) - r\<bar> \<le> 1 / 2"
proof -
  let ?d = "r - of_int \<lfloor>r\<rfloor>"
  have f: "0 \<le> ?d" "?d < 1" by linarith+
  consider "?d < 1 / 2" | "1 / 2 < ?d" | "?d = 1 / 2" by linarith
  then show ?thesis
  proof cases
    case 1
    then have "round_even r = \<lfloor>r\<rfloor>" by (simp add: round_even_def Let_def)
    with f 1 show ?thesis by simp
  next
    case 2
    then have "round_even r = \<lfloor>r\<rfloor> + 1" by (simp add: round_even_def Let_def)
    with f 2 show ?thesis by simp
  next
    case 3
    then have "round_even r = \<lfloor>r\<rfloor> \<or> round_even r = \<lfloor>r\<rfloor> + 1"
      by (simp add: round_even_def Let_def)
    with 3 show ?thesis by auto
  qed
qed

lemma round_even_of_int: "round_even (of_int n) = n"
  using round_even_ge [of n "of_int n"] round_even_le [of "of_int n" n] by simp

lemma round_even_eqI:
  assumes "of_int n - 1 / 2 < r" and "r < of_int n + 1 / 2"
  shows "round_even r = n"
proof -
  have "\<bar>of_int (round_even r) - r\<bar> \<le> 1 / 2" by (rule round_even_error)
  then have "\<bar>(of_int (round_even r) :: rat) - of_int n\<bar> < 1"
    using assms by linarith
  then have "\<bar>round_even r - n\<bar> < 1"
    by (metis (no_types) of_int_diff of_int_abs of_int_less_1_iff)
  then show ?thesis by simp
qed

lemma fl_pos_eval:
  assumes "2 powi k \<le> x" and "x < 2 powi (k + 1)"
  shows "fl_pos x = of_int (round_even (x / 2 powi (k - 52))) * 2 powi (k - 52)"
  unfolding fl_pos_def ilog2_unique [OF assms] by (simp add: Let_def)

lemma pow2_split: "(2::rat) powi e = 2 ^ 52 * 2 powi (e - 52)"
proof -
  have "(2::rat) powi e = 2 powi (52 + (e - 52))" by simp
  also have "\<dots> = 2 powi 52 * 2 powi (e - 52)"
    by (rule power_int_add) simp
  finally show ?thesis by simp
qed

lemma fl_pos_ge_pow:
  assumes "0 < x"
  shows "2 powi (ilog2 x) \<le> fl_pos x"
proof -
  let ?q = "(2::rat) powi (ilog2 x - 52)"
  have q: "0 < ?q" by (rule pow2_pos)
  have "2 ^ 52 * ?q \<le> x"
    using ilog2_bounds(1) [OF assms] pow2_split [of "ilog2 x"] by simp
  then have "of_int (2 ^ 52) \<le> x / ?q"
    using q by (simp add: pos_le_divide_eq)
  then have "2 ^ 52 \<le> round_even (x / ?q)"
    by (rule round_even_ge)
  then have "(of_int (2 ^ 52) :: rat) \<le> of_int (round_even (x / ?q))"
    by (simp only: of_int_le_iff)
  then have "of_int (2 ^ 52) * ?q \<le> of_int (round_even (x / ?q)) * ?q"
    using q by (simp only: mult_le_cancel_right_pos)
  then show ?thesis
    unfolding fl_pos_def Let_def using pow2_split [of "ilog2 x"] by simp
qed

lemma fl_pos_error:
  assumes "0 < x"
  shows "\<bar>fl_pos x - x\<bar> \<le> x / 2 ^ 53"
proof -
  let ?q = "(2::rat) powi (ilog2 x - 52)"
  let ?n = "round_even (x / ?q)"
  have q: "0 < ?q" by (rule pow2_pos)
  have x: "x = (x / ?q) * ?q" using q by simp
  have "fl_pos x - x = (of_int ?n - x / ?q) * ?q"
    unfolding fl_pos_def Let_def using q by (simp add: algebra_simps)
  then have "\<bar>fl_pos x - x\<bar> = \<bar>of_int ?n - x / ?q\<bar> * ?q"
    using q by (simp add: abs_mult)
  also have "\<dots> \<le> (1 / 2) * ?q"
    using round_even_error [of "x / ?q"] q by (simp only: mult_le_cancel_right_pos)
  finally have a: "\<bar>fl_pos x - x\<bar> \<le> ?q / 2" by simp
  have "2 ^ 52 * ?q \<le> x"
    using ilog2_bounds(1) [OF assms] pow2_split [of "ilog2 x"] by simp
  then have "?q / 2 \<le> x / 2 ^ 53" by simp
  with a show ?thesis by linarith
qed

lemma fl_pos_pow2: "fl_pos (2 powi k) = 2 powi k"
proof -
  have b: "(2::rat) powi k \<le> 2 powi k" "(2::rat) powi k < 2 powi (k + 1)"
    using pow2_Suc [of k] pow2_pos [of k] by simp_all
  have q: "0 < (2::rat) powi (k - 52)" by (rule pow2_pos)
  have "(2::rat) powi k / 2 powi (k - 52) = of_int (2 ^ 52)"
    using pow2_split [of k] q by simp
  then have "round_even ((2::rat) powi k / 2 powi (k - 52)) = 2 ^ 52"
    by (simp only: round_even_of_int)
  then show ?thesis
    unfolding fl_pos_eval [OF b] using pow2_split [of k] by simp
qed

text \<open>An integer of at most 53 bits lies on the grid of every binade up to \<open>2 ^ 52\<close>.\<close>

lemma int_on_grid:
  assumes "e \<le> 52"
  shows "of_int z / (2::rat) powi (e - 52) = of_int (z * 2 ^ nat (52 - e))"
proof -
  have "(2::rat) powi (e - 52) * 2 powi (52 - e) = 2 powi ((e - 52) + (52 - e))"
    by (rule power_int_add [symmetric]) simp
  then have "(2::rat) powi (e - 52) * 2 powi (52 - e) = 1" by simp
  moreover have "(2::rat) powi (52 - e) = 2 ^ nat (52 - e)"
    using assms by (simp add: power_int_nonneg_exp)
  ultimately have "(2::rat) powi (e - 52) * 2 ^ nat (52 - e) = 1" by simp
  then have "1 / (2::rat) powi (e - 52) = 2 ^ nat (52 - e)"
    using pow2_pos [of "e - 52"] by (simp add: field_simps)
  then have "of_int z / (2::rat) powi (e - 52) = of_int z * 2 ^ nat (52 - e)"
    by (metis times_divide_eq_right mult.right_neutral)
  then show ?thesis by simp
qed

lemma fl_pos_le_int:
  assumes "0 < x" and "x \<le> of_int z" and "z \<le> 2 ^ 53"
  shows "fl_pos x \<le> of_int z"
proof (cases "ilog2 x \<le> 52")
  case True
  let ?q = "(2::rat) powi (ilog2 x - 52)"
  have q: "0 < ?q" by (rule pow2_pos)
  have "x / ?q \<le> of_int z / ?q"
    using assms(2) q by (simp add: divide_right_mono)
  then have "x / ?q \<le> of_int (z * 2 ^ nat (52 - ilog2 x))"
    by (simp only: int_on_grid [OF True])
  then have "round_even (x / ?q) \<le> z * 2 ^ nat (52 - ilog2 x)"
    by (rule round_even_le)
  then have "(of_int (round_even (x / ?q)) :: rat) \<le> of_int (z * 2 ^ nat (52 - ilog2 x))"
    by (simp only: of_int_le_iff)
  then have "(of_int (round_even (x / ?q)) :: rat) \<le> of_int z / ?q"
    by (simp only: int_on_grid [OF True])
  then have "of_int (round_even (x / ?q)) * ?q \<le> of_int z"
    using q by (simp add: pos_le_divide_eq)
  then show ?thesis
    unfolding fl_pos_def Let_def .
next
  case False
  then have "53 \<le> ilog2 x" by simp
  then have "(2::rat) powi 53 \<le> 2 powi (ilog2 x)"
    by (rule power_int_increasing) simp
  with ilog2_bounds(1) [OF assms(1)] have "2 ^ 53 \<le> x" by simp
  moreover have "(of_int z :: rat) \<le> of_int (2 ^ 53)"
    using assms(3) by (simp only: of_int_le_iff)
  ultimately have "x = 2 powi 53" and "of_int z = (2::rat) powi 53"
    using assms(2) by simp_all
  then show ?thesis
    using fl_pos_pow2 [of 53] by simp
qed

lemma fl_pos_ge_int:
  assumes "0 < x" and "of_int z \<le> x" and "z \<le> 2 ^ 53"
  shows "of_int z \<le> fl_pos x"
proof (cases "of_int z \<le> (2::rat) powi (ilog2 x)")
  case True
  with fl_pos_ge_pow [OF assms(1)] show ?thesis by linarith
next
  case False
  let ?q = "(2::rat) powi (ilog2 x - 52)"
  have q: "0 < ?q" by (rule pow2_pos)
  have "(of_int z :: rat) \<le> of_int (2 ^ 53)"
    using assms(3) by (simp only: of_int_le_iff)
  with False have "(2::rat) powi (ilog2 x) < 2 powi 53" by simp
  then have "ilog2 x < 53" by (rule pow2_less_cancel)
  then have e: "ilog2 x \<le> 52" by simp
  have "of_int z / ?q \<le> x / ?q"
    using assms(2) q by (simp add: divide_right_mono)
  then have "of_int (z * 2 ^ nat (52 - ilog2 x)) \<le> x / ?q"
    by (simp only: int_on_grid [OF e])
  then have "z * 2 ^ nat (52 - ilog2 x) \<le> round_even (x / ?q)"
    by (rule round_even_ge)
  then have "(of_int (z * 2 ^ nat (52 - ilog2 x)) :: rat) \<le> of_int (round_even (x / ?q))"
    by (simp only: of_int_le_iff)
  then have "of_int z / ?q \<le> (of_int (round_even (x / ?q)) :: rat)"
    by (simp only: int_on_grid [OF e])
  then have "of_int z \<le> of_int (round_even (x / ?q)) * ?q"
    using q by (simp add: pos_divide_le_eq)
  then show ?thesis
    unfolding fl_pos_def Let_def .
qed


lemma fl_zero: "fl 0 = 0"
  by (simp add: fl_def)

lemma fl_of_pos: "0 < x \<Longrightarrow> fl x = fl_pos x"
  by (simp add: fl_def)

lemma fl_minus: "fl (- x) = - fl x"
  by (simp add: fl_def)

lemma fl_gt_zero:
  assumes "0 < x"
  shows "0 < fl x"
  using fl_pos_ge_pow [OF assms] pow2_pos [of "ilog2 x"] fl_of_pos [OF assms] by linarith

lemma fl_nonneg:
  assumes "0 \<le> x"
  shows "0 \<le> fl x"
proof (cases "x = 0")
  case True
  then show ?thesis by (simp add: fl_zero)
next
  case False
  with assms have "0 < x" by simp
  from fl_gt_zero [OF this] show ?thesis by simp
qed

lemma fl_error: "\<bar>fl x - x\<bar> \<le> \<bar>x\<bar> / 2 ^ 53"
proof -
  consider "x = 0" | "0 < x" | "x < 0" by linarith
  then show ?thesis
  proof cases
    case 1
    then show ?thesis by (simp add: fl_zero)
  next
    case 2
    with fl_pos_error [OF 2] show ?thesis by (simp add: fl_of_pos)
  next
    case 3
    then have p: "0 < - x" by simp
    have "fl x = - fl_pos (- x)" using 3 by (simp add: fl_def)
    then have "\<bar>fl x - x\<bar> = \<bar>fl_pos (- x) - (- x)\<bar>" by simp
    with fl_pos_error [OF p] 3 show ?thesis by simp
  qed
qed

lemma fl_le_int:
  assumes "x \<le> of_int z" and "\<bar>z\<bar> \<le> 2 ^ 53"
  shows "fl x \<le> of_int z"
proof -
  consider "x = 0" | "0 < x" | "x < 0" by linarith
  then show ?thesis
  proof cases
    case 1
    with assms(1) show ?thesis by (simp add: fl_zero)
  next
    case 2
    have "z \<le> 2 ^ 53" using assms(2) by simp
    from fl_pos_le_int [OF 2 assms(1) this] show ?thesis
      by (simp add: fl_of_pos [OF 2])
  next
    case 3
    then have p: "0 < - x" by simp
    have f: "fl x = - fl_pos (- x)" using 3 by (simp add: fl_def)
    show ?thesis
    proof (cases "0 \<le> z")
      case True
      have "0 < fl_pos (- x)"
        using fl_gt_zero [OF p] by (simp add: fl_of_pos [OF p])
      with True f show ?thesis by simp
    next
      case False
      have a: "of_int (- z) \<le> - x" using assms(1) by simp
      have b: "- z \<le> 2 ^ 53" using assms(2) by simp
      from fl_pos_ge_int [OF p a b] f show ?thesis by simp
    qed
  qed
qed

lemma fl_ge_int:
  assumes "of_int z \<le> x" and "\<bar>z\<bar> \<le> 2 ^ 53"
  shows "of_int z \<le> fl x"
proof -
  have a: "- x \<le> of_int (- z)" using assms(1) by simp
  have b: "\<bar>- z\<bar> \<le> 2 ^ 53" using assms(2) by simp
  from fl_le_int [OF a b] show ?thesis by (simp add: fl_minus)
qed

lemma fl_of_int:
  assumes "\<bar>z\<bar> \<le> 2 ^ 53"
  shows "fl (of_int z) = of_int z"
  using fl_le_int [OF _ assms, of "of_int z"] fl_ge_int [OF _ assms, of "of_int z"] by simp


lemma fl_eqI:
  assumes "2 powi k \<le> x" and "x < 2 powi (k + 1)"
    and "of_int n - 1 / 2 < x / 2 powi (k - 52)" and "x / 2 powi (k - 52) < of_int n + 1 / 2"
  shows "fl x = of_int n * 2 powi (k - 52)"
proof -
  have "0 < x" using assms(1) pow2_pos [of k] by linarith
  then show ?thesis
    by (simp only: fl_of_pos fl_pos_eval [OF assms(1,2)] round_even_eqI [OF assms(3,4)])
qed

subsection \<open>The scroll listener\<close>

lemma progress_bounds:
  assumes "in_range m y"
  shows "0 \<le> progress m y \<and> progress m y \<le> 1"
  using assms unfolding in_range_def progress_def by simp

lemma next_index_valid:
  assumes "1 \<le> tot" and "in_range m y"
  shows "valid_index tot (next_index tot m y)"
proof -
  from progress_bounds [OF assms(2)] have p: "0 \<le> progress m y" "progress m y \<le> 1"
    by simp_all
  from assms(1) have t: "(0::rat) \<le> of_nat tot - 1" by simp
  have lo: "0 \<le> progress m y * (of_nat tot - 1)"
    using p(1) t by simp
  have "progress m y * (of_nat tot - 1) \<le> 1 * (of_nat tot - 1)"
    using p(2) t by (rule mult_right_mono)
  also have "\<dots> = of_int (int tot - 1)" by simp
  finally have hi: "progress m y * (of_nat tot - 1) \<le> of_int (int tot - 1)" .
  from js_round_bounds [OF lo hi] show ?thesis
    unfolding valid_index_def next_index_def by simp
qed

lemma onScroll_frame_active:
  "active (onScroll_frame tot y s) =
     (if in_range (metricsRef s) y then next_index tot (metricsRef s) y else active s)"
  unfolding onScroll_frame_def by (simp add: Let_def)

lemma onScroll_frame_metricsRef: "metricsRef (onScroll_frame tot y s) = metricsRef s"
  unfolding onScroll_frame_def by (simp add: Let_def)

lemma onScroll_frame_mounted: "mounted (onScroll_frame tot y s) = mounted s"
  unfolding onScroll_frame_def by (simp add: Let_def)

lemma onScroll_frame_ticking: "ticking (onScroll_frame tot y s) = False"
  unfolding onScroll_frame_def by (simp add: Let_def)

lemma onScroll_active:
  "active (onScroll tot y s) =
     (if mounted s \<and> \<not> ticking s \<and> in_range (metricsRef s) y
      then next_index tot (metricsRef s) y else active s)"
  unfolding onScroll_def by (simp add: onScroll_frame_active)

lemma onScroll_metricsRef: "metricsRef (onScroll tot y s) = metricsRef s"
  unfolding onScroll_def by (simp add: onScroll_frame_metricsRef)

lemma onScroll_mounted: "mounted (onScroll tot y s) = mounted s"
  unfolding onScroll_def by (simp add: onScroll_frame_mounted)

lemma onScroll_ticking: "ticking (onScroll tot y s) = ticking s"
  unfolding onScroll_def by (auto simp add: onScroll_frame_ticking)

lemma onScroll_unchanged:
  assumes "\<not> in_range (metricsRef s) y \<or> \<not> mounted s \<or> ticking s"
  shows "onScroll tot y s = s"
  using assms unfolding onScroll_def onScroll_frame_def by (auto simp add: Let_def)

subsection \<open>Navigation\<close>

lemma scrollToIndex_state:
  "fst (scrollToIndex tot n s) = s\<lparr>active := max 0 (min (int tot - 1) n)\<rparr>"
  unfolding scrollToIndex_def by (simp add: Let_def)

lemma scrollToIndex_request:
  "snd (scrollToIndex tot n s) =
     (if endY (metricsRef s) \<le> startY (metricsRef s) then None
      else Some (SmoothScrollTo
             (startY (metricsRef s)
              + (if tot > 1 then of_int (max 0 (min (int tot - 1) n)) / (of_nat tot - 1) else 0)
                * (endY (metricsRef s) - startY (metricsRef s)))))"
  unfolding scrollToIndex_def by (simp add: Let_def)

lemma max_min_clamp:
  assumes "1 \<le> tot"
  shows "max 0 (min (int tot - 1) n) = clamp n 0 (int tot - 1)"
  using assms unfolding clamp_def by auto


subsection \<open>The invariant\<close>

lemma length_FEATURES: "length FEATURES = 5"
  by (simp add: FEATURES_def)

lemma computeMetrics_active: "active (computeMetrics lay s) = active s"
  unfolding computeMetrics_def by simp

lemma computeMetrics_mounted: "mounted (computeMetrics lay s) = mounted s"
  unfolding computeMetrics_def by simp

lemma scrollToIndex_valid:
  assumes "1 \<le> tot"
  shows "valid_index tot (active (fst (scrollToIndex tot n s)))"
  using assms unfolding valid_index_def by (simp add: scrollToIndex_state)


lemma onScroll_valid:
  assumes "1 \<le> tot" and "valid_index tot (active s)"
  shows "valid_index tot (active (onScroll tot y s))"
  using assms by (simp add: onScroll_active next_index_valid)

lemma onResize_valid:
  assumes "1 \<le> tot" and "valid_index tot (active s)"
  shows "valid_index tot (active (onResize tot lay y s))"
  unfolding onResize_def using assms by (simp add: onScroll_valid computeMetrics_active)

lemma effect_valid:
  assumes "1 \<le> tot" and "valid_index tot (active s)"
  shows "valid_index tot (active (effect tot lay y s))"
  unfolding effect_def using assms by (simp add: onScroll_valid computeMetrics_active)

lemma step_valid:
  assumes "1 \<le> tot" and "valid_index tot (active s)"
  shows "valid_index tot (active (step tot s ev))"
  using assms
  by (cases ev)
    (simp_all add: effect_valid onScroll_valid onResize_valid scrollToIndex_valid
      onPrev_def onNext_def)

lemma run_valid:
  assumes "1 \<le> tot" and "valid_index tot (active s)"
  shows "valid_index tot (active (run tot evs s))"
  using assms(2) unfolding run_def
proof (induction evs arbitrary: s)
  case Nil
  then show ?case by simp
next
  case (Cons ev evs)
  from step_valid [OF assms(1) Cons.prems]
  have "valid_index tot (active (step tot s ev))" .
  then show ?case by (simp add: Cons.IH)
qed

lemma init_valid:
  assumes "1 \<le> tot"
  shows "valid_index tot (active init)"
  using assms unfolding valid_index_def init_def by simp

lemma valid_index_one: "valid_index 1 a \<longleftrightarrow> a = 0"
  unfolding valid_index_def by auto

text \<open>With one feature the factor \<open>total - 1\<close> is 0, whatever the progress is.\<close>

lemma next_index_one: "next_index 1 m y = 0"
  unfolding next_index_def by (simp add: js_round_eq_iff)

subsection \<open>The handlers in binary64\<close>

lemma fl_one: "fl 1 = 1"
  using fl_of_int [of 1] by simp

lemma fl_numeral: "numeral w \<le> (2::int) ^ 53 \<Longrightarrow> fl (numeral w) = numeral w"
  using fl_of_int [of "numeral w"] by simp

lemma onScroll_frame64_active:
  "active (onScroll_frame64 tot y s) =
     (if in_range (metricsRef s) y then next_index64 tot (metricsRef s) y else active s)"
  unfolding onScroll_frame64_def by (simp add: Let_def)

lemma onScroll64_active:
  "active (onScroll64 tot y s) =
     (if mounted s \<and> \<not> ticking s \<and> in_range (metricsRef s) y
      then next_index64 tot (metricsRef s) y else active s)"
  unfolding onScroll64_def by (simp add: onScroll_frame64_active)

lemma scrollToIndex64_state:
  "fst (scrollToIndex64 tot n s) = s\<lparr>active := max 0 (min (int tot - 1) n)\<rparr>"
  unfolding scrollToIndex64_def by (simp add: Let_def)

lemma scrollToIndex64_request:
  "snd (scrollToIndex64 tot n s) =
     (if endY (metricsRef s) \<le> startY (metricsRef s) then None
      else Some (SmoothScrollTo
             (fl (startY (metricsRef s)
                  + fl ((if tot > 1 then fl (of_int (max 0 (min (int tot - 1) n)) / (of_nat tot - 1))
                         else 0)
                        * fl (endY (metricsRef s) - startY (metricsRef s)))))))"
  unfolding scrollToIndex64_def by (simp add: Let_def)

text \<open>The quotient 15/22 and its product with 11, as binary64 computes them.\<close>

lemma fl_15_22: "fl (15 / 22) = 6141272219141585 / 2 ^ 53"
  using fl_eqI [of "- 1" "15 / 22" 6141272219141585] by simp

lemma fl_15_22_times_11: "fl (6141272219141585 / 2 ^ 53 * 11) = 8444249301319679 / 2 ^ 50"
  using fl_eqI [of 2 "6141272219141585 / 2 ^ 53 * 11" 8444249301319679] by simp

lemma next_index64_12_7000:
  "next_index64 12 \<lparr>startY = 1000, endY = 9800, height = 9600, viewport = 800\<rparr> 7000 = 7"
proof -
  have a: "fl 6000 = 6000" using fl_of_int [of 6000] by simp
  have b: "fl 8800 = 8800" using fl_of_int [of 8800] by simp
  have p: "progress64 \<lparr>startY = 1000, endY = 9800, height = 9600, viewport = 800\<rparr> 7000
             = 6141272219141585 / 2 ^ 53"
    unfolding progress64_def by (simp add: a b fl_15_22)
  have n: "(of_nat 12 :: rat) - 1 = 11" by simp
  have m: "fl (progress64 \<lparr>startY = 1000, endY = 9800, height = 9600, viewport = 800\<rparr> 7000
               * (of_nat 12 - 1)) = 8444249301319679 / 2 ^ 50"
    unfolding p n by (rule fl_15_22_times_11)
  show ?thesis
    unfolding next_index64_def m by (simp add: js_round_eq_iff)
qed

lemma fl_error_le:
  assumes "0 \<le> x" and "x \<le> c"
  shows "\<bar>fl x - x\<bar> \<le> c / 2 ^ 53"
proof -
  have "\<bar>fl x - x\<bar> \<le> \<bar>x\<bar> / 2 ^ 53" by (rule fl_error)
  also have "\<dots> \<le> c / 2 ^ 53" using assms by (simp add: divide_right_mono)
  finally show ?thesis .
qed

lemma fl_error_abs_le:
  assumes "\<bar>x\<bar> \<le> c"
  shows "\<bar>fl x - x\<bar> \<le> c / 2 ^ 53"
proof -
  have "\<bar>fl x - x\<bar> \<le> \<bar>x\<bar> / 2 ^ 53" by (rule fl_error)
  also have "\<dots> \<le> c / 2 ^ 53" using assms by (simp add: divide_right_mono)
  finally show ?thesis .
qed

lemma roundtrip64_arith:
  fixes a b i :: int and tot :: nat and q t T :: rat
  assumes i0: "0 \<le> i" and i1: "i \<le> int tot - 1" and tot: "tot \<le> 2 ^ 16"
    and ab: "a < b" and a: "\<bar>a\<bar> \<le> 2 ^ 32" and b: "\<bar>b\<bar> \<le> 2 ^ 32"
    and q: "q = (if tot > 1 then of_int i / (of_nat tot - 1) else 0)"
    and t: "t = (if tot > 1 then fl (of_int i / (of_nat tot - 1)) else 0)"
    and T: "T = fl (of_int a + fl (t * fl (of_int b - of_int a)))"
  shows "of_int a \<le> T \<and> T \<le> of_int b
       \<and> \<bar>T - (of_int a + q * (of_int b - of_int a))\<bar> \<le> 1 / 2 ^ 18
       \<and> js_round (fl (fl (fl (T - of_int a) / fl (of_int b - of_int a)) * (of_nat tot - 1))) = i"
proof -
  define n1 :: rat where "n1 = of_nat tot - 1"
  define D :: rat where "D = of_int (b - a)"
  define X where "X = q * D"
  define P where "P = fl (t * D)"
  define A where "A = fl (T - of_int a)"
  define R where "R = fl (A / D)"
  define M where "M = fl (R * n1)"
  have tot1: "1 \<le> tot" using i0 i1 by simp
  have n1_ge: "0 \<le> n1" using tot1 by (simp add: n1_def)
  have "(of_nat tot :: rat) \<le> of_nat (2 ^ 16)" using tot by (simp only: of_nat_le_iff)
  then have n1_le: "n1 \<le> 65535" by (simp add: n1_def)
  have in1: "of_int i \<le> n1"
  proof -
    have "(of_int i :: rat) \<le> of_int (int tot - 1)" using i1 by (simp only: of_int_le_iff)
    then show ?thesis by (simp add: n1_def)
  qed
  have i_ge: "(0::rat) \<le> of_int i" using i0 by simp
  have qn: "q * n1 = of_int i"
  proof (cases "tot > 1")
    case True
    then have "n1 \<noteq> 0" by (simp add: n1_def)
    then show ?thesis using True by (simp add: q n1_def)
  next
    case False
    with tot1 have "tot = 1" by simp
    with i0 i1 show ?thesis by (simp add: q n1_def)
  qed
  have q0: "0 \<le> q" using i_ge n1_ge by (simp add: q n1_def)
  have q1: "q \<le> 1"
  proof (cases "tot > 1")
    case True
    then have "0 < n1" by (simp add: n1_def)
    then show ?thesis using True in1 by (simp add: q n1_def)
  next
    case False
    then show ?thesis by (simp add: q)
  qed
  have tq: "t = fl q" by (simp add: t q fl_zero)
  have D1: "1 \<le> D"
  proof -
    have "1 \<le> b - a" using ab by simp
    then have "(of_int 1 :: rat) \<le> of_int (b - a)" by (simp only: of_int_le_iff)
    then show ?thesis by (simp add: D_def)
  qed
  have D2: "D \<le> 2 ^ 33"
  proof -
    have "b - a \<le> 2 ^ 33" using a b by simp
    then have "(of_int (b - a) :: rat) \<le> of_int (2 ^ 33)" by (simp only: of_int_le_iff)
    then show ?thesis by (simp add: D_def)
  qed
  have Dabs: "\<bar>b - a\<bar> \<le> 2 ^ 53" using a b by simp
  have flD: "fl (of_int b - of_int a) = D"
    using fl_of_int [OF Dabs] by (simp add: D_def)
  have a53: "\<bar>a\<bar> \<le> 2 ^ 53" using a by simp
  have b53: "\<bar>b\<bar> \<le> 2 ^ 53" using b by simp
  have one53: "\<bar>1::int\<bar> \<le> 2 ^ 53" by simp
  \<comment> \<open>the step fraction\<close>
  have t0: "0 \<le> t" unfolding tq using q0 by (rule fl_nonneg)
  have t1: "t \<le> 1"
    using fl_le_int [of q 1] q1 by (simp add: tq)
  have t_err: "\<bar>t - q\<bar> \<le> 1 / 2 ^ 53"
    unfolding tq using fl_error_le [OF q0 q1] by simp
  \<comment> \<open>the product\<close>
  have X0: "0 \<le> X" using q0 D1 by (simp add: X_def)
  have tD0: "0 \<le> t * D" using t0 D1 by simp
  have tD1: "t * D \<le> D" using t1 D1 by (simp add: mult_left_le_one_le)
  have "\<bar>t * D - X\<bar> = \<bar>t - q\<bar> * D"
    using D1 by (simp add: X_def abs_mult left_diff_distrib [symmetric])
  also have "\<dots> \<le> (1 / 2 ^ 53) * 2 ^ 33"
    using t_err D2 D1 by (intro mult_mono) simp_all
  finally have tD_err: "\<bar>t * D - X\<bar> \<le> 2 / 2097152" by simp
  have P0: "0 \<le> P" unfolding P_def using tD0 by (rule fl_nonneg)
  have "t * D \<le> of_int (b - a)" using tD1 by (simp add: D_def)
  then have "fl (t * D) \<le> of_int (b - a)" using Dabs by (rule fl_le_int)
  then have P1: "P \<le> D" by (simp add: P_def D_def)
  have "t * D \<le> 2 ^ 33" using tD1 D2 by linarith
  from fl_error_le [OF tD0 this]
  have P_err: "\<bar>P - t * D\<bar> \<le> 2 / 2097152" by (simp add: P_def)
  have PX: "\<bar>P - X\<bar> \<le> 4 / 2097152" using P_err tD_err by linarith
  \<comment> \<open>the target\<close>
  have Tdef: "T = fl (of_int a + P)" by (simp add: T P_def flD)
  have abs_a: "\<bar>(of_int a :: rat)\<bar> \<le> 2 ^ 32"
  proof -
    have "(of_int \<bar>a\<bar> :: rat) \<le> of_int (2 ^ 32)" using a by (simp only: of_int_le_iff)
    then show ?thesis by simp
  qed
  have "\<bar>of_int a + P\<bar> \<le> 2 ^ 32 + 2 ^ 33" using abs_a P0 P1 D2 by linarith
  from fl_error_abs_le [OF this]
  have T_err: "\<bar>T - (of_int a + P)\<bar> \<le> 3 / 2097152" by (simp add: Tdef)
  have "of_int a \<le> of_int a + P" using P0 by simp
  then have Tlo: "of_int a \<le> T" unfolding Tdef using a53 by (rule fl_ge_int)
  have "of_int a + P \<le> of_int b" using P1 by (simp add: D_def)
  then have Thi: "T \<le> of_int b" unfolding Tdef using b53 by (rule fl_le_int)
  have TX: "\<bar>T - (of_int a + X)\<bar> \<le> 7 / 2097152" using T_err PX by linarith
  \<comment> \<open>back through lines 108-109\<close>
  have Ta0: "0 \<le> T - of_int a" using Tlo by simp
  have Ta1: "T - of_int a \<le> of_int (b - a)" using Thi by simp
  have A0: "0 \<le> A" unfolding A_def using Ta0 by (rule fl_nonneg)
  have "fl (T - of_int a) \<le> of_int (b - a)" using Ta1 Dabs by (rule fl_le_int)
  then have A1: "A \<le> D" by (simp add: A_def D_def)
  have "T - of_int a \<le> 2 ^ 33" using Ta1 D2 by (simp add: D_def)
  from fl_error_le [OF Ta0 this]
  have A_err: "\<bar>A - (T - of_int a)\<bar> \<le> 2 / 2097152" by (simp add: A_def)
  have AX: "\<bar>A - X\<bar> \<le> 9 / 2097152" using A_err TX by linarith
  have Dpos: "0 < D" using D1 by simp
  have "A / D - q = (A - X) / D" using Dpos by (simp add: X_def field_simps)
  then have "\<bar>A / D - q\<bar> = \<bar>A - X\<bar> / D" using Dpos by (simp add: abs_divide)
  also have "\<dots> \<le> \<bar>A - X\<bar>"
  proof -
    have "\<bar>A - X\<bar> * 1 \<le> \<bar>A - X\<bar> * D" using D1 by (intro mult_left_mono) simp_all
    then show ?thesis using Dpos by (simp add: pos_divide_le_eq)
  qed
  finally have ADq: "\<bar>A / D - q\<bar> \<le> 9 / 2097152" using AX by linarith
  have AD0: "0 \<le> A / D" using A0 Dpos by simp
  have AD1: "A / D \<le> 1" using A1 Dpos by simp
  have R0: "0 \<le> R" unfolding R_def using AD0 by (rule fl_nonneg)
  have R1: "R \<le> 1" using fl_le_int [of "A / D" 1] AD1 by (simp add: R_def)
  from fl_error_le [OF AD0 AD1]
  have R_err: "\<bar>R - A / D\<bar> \<le> 1 / 2 ^ 53" by (simp add: R_def)
  have Rq: "\<bar>R - q\<bar> \<le> 9 / 2097152 + 1 / 2 ^ 53" using R_err ADq by linarith
  have Rn0: "0 \<le> R * n1" using R0 n1_ge by simp
  have Rn1: "R * n1 \<le> 65535" using R1 R0 n1_ge n1_le
    by (meson mult_left_le_one_le order_trans)
  from fl_error_le [OF Rn0 Rn1]
  have M_err: "\<bar>M - R * n1\<bar> \<le> 65535 / 2 ^ 53" by (simp add: M_def)
  have "\<bar>R * n1 - of_int i\<bar> = \<bar>R - q\<bar> * n1"
    using n1_ge by (simp add: qn [symmetric] abs_mult left_diff_distrib [symmetric])
  also have "\<dots> \<le> (9 / 2097152 + 1 / 2 ^ 53) * 65535"
    using Rq n1_le n1_ge by (intro mult_mono) simp_all
  finally have Rni: "\<bar>R * n1 - of_int i\<bar> \<le> (9 / 2097152 + 1 / 2 ^ 53) * 65535" .
  have Rni': "\<bar>R * n1 - of_int i\<bar> \<le> 2533236135755775 / 9007199254740992"
    using Rni by simp
  have M_err': "\<bar>M - R * n1\<bar> \<le> 65535 / 9007199254740992"
    using M_err by simp
  have Mi: "\<bar>M - of_int i\<bar> < 1 / 2" using M_err' Rni' by linarith
  have rnd: "js_round M = i"
    unfolding js_round_eq_iff using Mi by linarith
  have Mdef: "fl (fl (fl (T - of_int a) / fl (of_int b - of_int a)) * (of_nat tot - 1)) = M"
    by (simp add: M_def R_def A_def flD n1_def)
  have Xq: "of_int a + q * (of_int b - of_int a) = of_int a + X"
    by (simp add: X_def D_def)
  have TXb: "\<bar>T - (of_int a + q * (of_int b - of_int a))\<bar> \<le> 1 / 2 ^ 18"
    unfolding Xq using TX by simp
  show ?thesis
    unfolding Mdef using Tlo Thi TXb rnd by (intro conjI)
qed

lemma quotient64_error:
  assumes a0: "0 \<le> a" and ad: "a \<le> d" and d0: "0 < d"
  shows "\<bar>fl a / fl d - a / d\<bar> \<le> 3 / 2 ^ 53"
proof -
  define u :: rat where "u = 1 / 2 ^ 53"
  have u: "0 < u" "u \<le> 1 / 3" by (simp_all add: u_def)
  have A: "\<bar>fl a - a\<bar> \<le> a * u"
    using fl_error [of a] a0 by (simp add: u_def)
  have Dd: "\<bar>fl d - d\<bar> \<le> d * u"
    using fl_error [of d] d0 by (simp add: u_def)
  have du: "d * u \<le> d / 3" using u(2) d0 by simp
  have Dlo: "d * (2 / 3) \<le> fl d" using Dd du by linarith
  have Dpos: "0 < fl d" using d0 by (rule fl_gt_zero)
  have "fl a / fl d - a / d = ((fl a - a) * d - a * (fl d - d)) / (fl d * d)"
    using Dpos d0 by (simp add: field_simps)
  then have "\<bar>fl a / fl d - a / d\<bar> = \<bar>(fl a - a) * d - a * (fl d - d)\<bar> / (fl d * d)"
    using Dpos d0 by (simp add: abs_divide abs_mult)
  also have "\<dots> \<le> (2 * (a * u) * d) / (fl d * d)"
  proof -
    have 1: "\<bar>(fl a - a) * d\<bar> \<le> (a * u) * d"
      using A d0 by (simp add: abs_mult)
    have "\<bar>a * (fl d - d)\<bar> = a * \<bar>fl d - d\<bar>" using a0 by (simp add: abs_mult)
    also have "\<dots> \<le> a * (d * u)" using Dd a0 by (rule mult_left_mono)
    finally have 2: "\<bar>a * (fl d - d)\<bar> \<le> (a * u) * d" by (simp add: mult_ac)
    have "\<bar>(fl a - a) * d - a * (fl d - d)\<bar> \<le> 2 * (a * u) * d"
      using 1 2 by linarith
    then show ?thesis
      using Dpos d0 by (intro divide_right_mono) simp_all
  qed
  also have "\<dots> = 2 * u * (a / fl d)" using d0 by simp
  also have "\<dots> \<le> 2 * u * (3 / 2)"
  proof -
    have "a \<le> (3 / 2) * fl d" using ad Dlo by linarith
    then have "a / fl d \<le> 3 / 2" using Dpos by (simp add: pos_divide_le_eq)
    then show ?thesis using u(1) by (intro mult_left_mono) simp_all
  qed
  finally show ?thesis by (simp add: u_def)
qed

lemma next_index64_near_exact:
  assumes "in_range m y"
  shows "\<bar>of_int (next_index64 tot m y) - progress m y * (of_nat tot - 1)\<bar>
           \<le> 1 / 2 + 7 * \<bar>of_nat tot - 1\<bar> / 2 ^ 53"
proof -
  define a where "a = y - startY m"
  define d where "d = endY m - startY m"
  define n1 :: rat where "n1 = of_nat tot - 1"
  define Q where "Q = fl a / fl d"
  define R where "R = fl Q"
  define M where "M = fl (R * n1)"
  have a0: "0 \<le> a" and ad: "a \<le> d" and d0: "0 < d"
    using assms by (simp_all add: in_range_def a_def d_def)
  have p: "progress m y = a / d" by (simp add: progress_def a_def d_def)
  have p1: "a / d \<le> 1" using ad d0 by simp
  have Qe: "\<bar>Q - a / d\<bar> \<le> 3 / 9007199254740992"
    using quotient64_error [OF a0 ad d0] by (simp add: Q_def)
  have Q0: "0 \<le> Q" unfolding Q_def using fl_nonneg [OF a0] fl_gt_zero [OF d0] by simp
  have Q2: "Q \<le> 2" using Qe p1 by linarith
  have Re: "\<bar>R - Q\<bar> \<le> 2 / 9007199254740992"
    using fl_error_le [OF Q0 Q2] by (simp add: R_def)
  have Rp: "\<bar>R - a / d\<bar> \<le> 5 / 9007199254740992" using Re Qe by linarith
  have R0: "0 \<le> R" unfolding R_def using Q0 by (rule fl_nonneg)
  have R2: "R \<le> 2" using Rp p1 by linarith
  have "\<bar>R * n1\<bar> = R * \<bar>n1\<bar>" using R0 by (simp add: abs_mult)
  also have "\<dots> \<le> 2 * \<bar>n1\<bar>" using R2 by (intro mult_right_mono) simp_all
  finally have Rn2: "\<bar>R * n1\<bar> \<le> 2 * \<bar>n1\<bar>" .
  have Me: "\<bar>M - R * n1\<bar> \<le> 2 * \<bar>n1\<bar> / 9007199254740992"
    using fl_error_abs_le [OF Rn2] by (simp add: M_def)
  have "R * n1 - a / d * n1 = (R - a / d) * n1"
    by (simp only: left_diff_distrib)
  then have "\<bar>R * n1 - a / d * n1\<bar> = \<bar>R - a / d\<bar> * \<bar>n1\<bar>"
    by (simp only: abs_mult)
  also have "\<dots> \<le> (5 / 9007199254740992) * \<bar>n1\<bar>"
    using Rp by (intro mult_right_mono) simp_all
  finally have Rn: "\<bar>R * n1 - a / d * n1\<bar> \<le> 5 * \<bar>n1\<bar> / 9007199254740992" by simp
  have Mx: "\<bar>M - a / d * n1\<bar> \<le> 7 * \<bar>n1\<bar> / 9007199254740992" using Me Rn by linarith
  have "of_int (js_round M) - 1 / 2 \<le> M \<and> M < of_int (js_round M) + 1 / 2"
    by (rule js_round_nearest)
  then have "\<bar>of_int (js_round M) - M\<bar> \<le> 1 / 2" by linarith
  with Mx have "\<bar>of_int (js_round M) - a / d * n1\<bar> \<le> 1 / 2 + 7 * \<bar>n1\<bar> / 9007199254740992"
    by linarith
  moreover have "next_index64 tot m y = js_round M"
    by (simp add: next_index64_def progress64_def M_def R_def Q_def a_def d_def n1_def)
  ultimately show ?thesis
    by (simp add: p n1_def)
qed



lemma next_index64_at_start:
  "next_index64 tot m (startY m) = 0"
  unfolding next_index64_def progress64_def by (simp add: fl_zero js_round_eq_iff)

lemma next_index64_at_end:
  assumes "startY m < endY m"
  shows "next_index64 5 m (endY m) = 4"
proof -
  have "0 < fl (endY m - startY m)" using assms by (intro fl_gt_zero) simp
  then have "progress64 m (endY m) = 1"
    unfolding progress64_def by (simp add: fl_one)
  moreover have "fl 4 = 4" using fl_of_int [of 4] by simp
  ultimately show ?thesis
    unfolding next_index64_def by (simp add: js_round_eq_iff)
qed



text \<open>Index 6 of 12 on a section from 1000 to 6654, as binary64 computes the target.\<close>

lemma fl_6_11: "fl (6 / 11) = 4913017775313268 / 2 ^ 53"
  using fl_eqI [of "- 1" "6 / 11" 4913017775313268] by simp

lemma fl_6_11_times_5654:
  "fl (4913017775313268 / 2 ^ 53 * 5654) = 6781787720122367 / 2 ^ 41"
  using fl_eqI [of 11 "4913017775313268 / 2 ^ 53 * 5654" 6781787720122367] by simp

lemma fl_1000_plus: "fl (1000 + 6781787720122367 / 2 ^ 41) = 8980810975674367 / 2 ^ 41"
  using fl_eqI [of 11 "1000 + 6781787720122367 / 2 ^ 41" 8980810975674367] by simp

lemma target64_12_6:
  "snd (scrollToIndex64 12 6
      \<lparr>active = 0,
       metricsRef = \<lparr>startY = 1000, endY = 6654, height = 6168, viewport = 514\<rparr>,
       mounted = True, ticking = False\<rparr>)
     = Some (SmoothScrollTo (8980810975674367 / 2 ^ 41))"
proof -
  have t: "fl (of_int 6 / (of_nat 12 - 1)) = 4913017775313268 / 2 ^ 53"
    using fl_6_11 by simp
  have d: "fl (6654 - 1000) = 5654" using fl_of_int [of 5654] by simp
  have c: "max 0 (min (int 12 - 1) 6) = 6" by simp
  have "fl (1000 + fl (fl (of_int 6 / (of_nat 12 - 1)) * fl (6654 - 1000)))
          = 8980810975674367 / 2 ^ 41"
    unfolding t d fl_6_11_times_5654 by (rule fl_1000_plus)
  then show ?thesis
    unfolding scrollToIndex64_request c by simp
qed

lemma scrollToIndex64_state_eq:
  "fst (scrollToIndex64 tot n s) = fst (scrollToIndex tot n s)"
  by (simp only: scrollToIndex64_state scrollToIndex_state)

lemma scrollToIndex64_None_iff:
  "snd (scrollToIndex64 tot n s) = None \<longleftrightarrow> snd (scrollToIndex tot n s) = None"
  by (simp add: scrollToIndex64_request scrollToIndex_request)

lemma onScroll64_unchanged:
  assumes "\<not> in_range (metricsRef s) y \<or> \<not> mounted s \<or> ticking s"
  shows "onScroll64 tot y s = onScroll tot y s"
proof -
  have "onScroll64 tot y s = s"
    using assms unfolding onScroll64_def onScroll_frame64_def by (auto simp add: Let_def)
  with onScroll_unchanged [OF assms] show ?thesis by simp
qed

lemma next_index64_one: "next_index64 1 m y = 0"
  unfolding next_index64_def by (simp add: fl_zero js_round_eq_iff)

lemma next_index64_valid:
  assumes "1 \<le> tot" and "tot \<le> 2 ^ 32" and "in_range m y"
  shows "valid_index tot (next_index64 tot m y)"
proof -
  define n1 :: rat where "n1 = of_nat tot - 1"
  define x where "x = progress m y * n1"
  have n0: "0 \<le> n1" using assms(1) by (simp add: n1_def)
  have "(of_nat tot :: rat) \<le> of_nat (2 ^ 32)" using assms(2) by (simp only: of_nat_le_iff)
  then have n4: "n1 \<le> 4294967295" by (simp add: n1_def)
  from progress_bounds [OF assms(3)] have p: "0 \<le> progress m y" "progress m y \<le> 1"
    by simp_all
  have x0: "0 \<le> x" using p(1) n0 by (simp add: x_def)
  have "progress m y * n1 \<le> 1 * n1" using p(2) n0 by (rule mult_right_mono)
  then have x1: "x \<le> n1" by (simp add: x_def)
  have "\<bar>of_int (next_index64 tot m y) - x\<bar> \<le> 1 / 2 + 7 * \<bar>n1\<bar> / 2 ^ 53"
    using next_index64_near_exact [OF assms(3), of tot] by (simp only: x_def n1_def)
  then have e: "\<bar>of_int (next_index64 tot m y) - x\<bar> \<le> 1 / 2 + 7 * n1 / 9007199254740992"
    using n0 by simp
  have lo: "(- 1 :: rat) < of_int (next_index64 tot m y)" using e x0 n4 by linarith
  have hi: "of_int (next_index64 tot m y) < n1 + 1" using e x1 n4 by linarith
  from lo have "- 1 < next_index64 tot m y"
    by (metis of_int_less_iff of_int_minus of_int_1)
  moreover from hi have "(of_int (next_index64 tot m y) :: rat) < of_int (int tot)"
    by (simp add: n1_def)
  then have "next_index64 tot m y < int tot" by (simp only: of_int_less_iff)
  ultimately show ?thesis by (simp add: valid_index_def)
qed

subsection \<open>The claims\<close>

text \<open>
  C1, as stated, fails. Twelve features, a section from offset 1000 to 9800, scroll
  offset 7000: the exact value of \<open>((y - startY) / (endY - startY)) * (total - 1)\<close> is
  7.5, which rounds to 8; the code divides to 0.6818181818181818, multiplies to
  7.499999999999999 and sets index 7.
\<close>

theorem onScroll_index_differs_from_exact:
  "active (onScroll_frame64 12 7000
      \<lparr>active = 0,
       metricsRef = \<lparr>startY = 1000, endY = 9800, height = 9600, viewport = 800\<rparr>,
       mounted = True, ticking = False\<rparr>) = 7
   \<and> active (onScroll64 12 7000
      \<lparr>active = 0,
       metricsRef = \<lparr>startY = 1000, endY = 9800, height = 9600, viewport = 800\<rparr>,
       mounted = True, ticking = False\<rparr>) = 7
   \<and> js_round (((7000 - 1000) / (9800 - 1000)) * (of_nat 12 - 1)) = 8"
  by (simp add: onScroll_frame64_active onScroll64_active in_range_def next_index64_12_7000
      js_round_eq_iff)

text \<open>
  C1, amended. When the scroll offset \<open>y\<close> lies in \<open>[startY, endY]\<close> and \<open>endY > startY\<close>, the
  frame callback of \<open>onScroll\<close> sets \<open>active\<close> to \<open>Math.round\<close> of
  \<open>((y - startY) / (endY - startY)) * (total - 1)\<close> as evaluated in double precision (the
  two differences, the quotient and the product each rounded to binary64), and so does
  \<open>onScroll\<close> itself on a mounted component with no frame pending. That index is
  within \<open>1/2 + 7 * (total - 1) / 2 ^ 53\<close> of the exact value of the expression. For five
  features, \<open>y = startY\<close> gives index 0 and \<open>y = endY\<close> gives index 4.
\<close>

theorem onScroll64_sets_rounded_index:
  assumes "startY (metricsRef s) \<le> y" and "y \<le> endY (metricsRef s)"
    and "startY (metricsRef s) < endY (metricsRef s)"
  shows "active (onScroll_frame64 tot y s) =
           js_round (fl (fl (fl (y - startY (metricsRef s))
                             / fl (endY (metricsRef s) - startY (metricsRef s)))
                         * (of_nat tot - 1)))
       \<and> \<bar>of_int (active (onScroll_frame64 tot y s))
            - ((y - startY (metricsRef s)) / (endY (metricsRef s) - startY (metricsRef s)))
              * (of_nat tot - 1)\<bar>
           \<le> 1 / 2 + 7 * \<bar>of_nat tot - 1\<bar> / 2 ^ 53
       \<and> (mounted s \<and> \<not> ticking s \<longrightarrow>
            active (onScroll64 tot y s) = active (onScroll_frame64 tot y s))
       \<and> (tot = 5 \<and> y = startY (metricsRef s) \<longrightarrow> active (onScroll_frame64 tot y s) = 0)
       \<and> (tot = 5 \<and> y = endY (metricsRef s) \<longrightarrow> active (onScroll_frame64 tot y s) = 4)"
proof -
  let ?m = "metricsRef s"
  have r: "in_range ?m y"
    using assms by (simp add: in_range_def)
  have a: "active (onScroll_frame64 tot y s) = next_index64 tot ?m y"
    using r by (simp add: onScroll_frame64_active)
  have c1: "active (onScroll_frame64 tot y s) =
           js_round (fl (fl (fl (y - startY ?m) / fl (endY ?m - startY ?m)) * (of_nat tot - 1)))"
    unfolding a by (simp add: next_index64_def progress64_def)
  have c2: "\<bar>of_int (active (onScroll_frame64 tot y s))
            - ((y - startY ?m) / (endY ?m - startY ?m)) * (of_nat tot - 1)\<bar>
           \<le> 1 / 2 + 7 * \<bar>of_nat tot - 1\<bar> / 2 ^ 53"
    unfolding a using next_index64_near_exact [OF r, of tot] by (simp only: progress_def)
  have c3: "mounted s \<and> \<not> ticking s \<longrightarrow>
            active (onScroll64 tot y s) = active (onScroll_frame64 tot y s)"
    using r by (simp add: onScroll64_active onScroll_frame64_active)
  have c4: "tot = 5 \<and> y = startY ?m \<longrightarrow> active (onScroll_frame64 tot y s) = 0"
    unfolding a by (auto simp only: next_index64_at_start)
  have c5: "tot = 5 \<and> y = endY ?m \<longrightarrow> active (onScroll_frame64 tot y s) = 4"
    unfolding a using next_index64_at_end [OF assms(3)] by auto
  from c1 c2 c3 c4 c5 show ?thesis by (intro conjI)
qed

theorem onScroll64_sets_rounded_index_witness:
  "active (onScroll64 5 1000 \<lparr>active = 2,
           metricsRef = \<lparr>startY = 1000, endY = 5000, height = 5000, viewport = 1000\<rparr>,
           mounted = True, ticking = False\<rparr>) = 0
   \<and> active (onScroll64 5 5000 \<lparr>active = 2,
           metricsRef = \<lparr>startY = 1000, endY = 5000, height = 5000, viewport = 1000\<rparr>,
           mounted = True, ticking = False\<rparr>) = 4"
  using onScroll64_sets_rounded_index [of "\<lparr>active = 2,
           metricsRef = \<lparr>startY = 1000, endY = 5000, height = 5000, viewport = 1000\<rparr>,
           mounted = True, ticking = False\<rparr>" 1000 5]
    onScroll64_sets_rounded_index [of "\<lparr>active = 2,
           metricsRef = \<lparr>startY = 1000, endY = 5000, height = 5000, viewport = 1000\<rparr>,
           mounted = True, ticking = False\<rparr>" 5000 5]
  by simp

text \<open>
  C2. For every integer \<open>targetIndex\<close>, in range or not, \<open>scrollToIndex\<close> leaves
  \<open>active = max(0, min(total - 1, targetIndex))\<close>, which is \<open>clamp(targetIndex, 0, total - 1)\<close>
  for a non-empty feature list. The state after the call is the state before it with
  this index, whatever the metrics are: the update does not depend on whether line 85
  returns early or a scroll is requested.
\<close>

theorem scrollToIndex_clamps:
  "active (fst (scrollToIndex tot n s)) = max 0 (min (int tot - 1) n)
   \<and> fst (scrollToIndex tot n s) = s\<lparr>active := max 0 (min (int tot - 1) n)\<rparr>
   \<and> (1 \<le> tot \<longrightarrow> active (fst (scrollToIndex tot n s)) = clamp n 0 (int tot - 1))"
  by (simp add: scrollToIndex_state max_min_clamp)

theorem scrollToIndex_clamps_witness:
  "active (fst (scrollToIndex 5 7 init)) = 4
   \<and> active (fst (scrollToIndex 5 (- 3) init)) = 0
   \<and> active (fst (scrollToIndex 5 3 init)) = 3
   \<and> active (fst (scrollToIndex 5 7 \<lparr>active = 2,
           metricsRef = \<lparr>startY = 1000, endY = 5000, height = 5000, viewport = 1000\<rparr>,
           mounted = True, ticking = False\<rparr>)) = 4"
  using scrollToIndex_clamps [of 5 7 init] scrollToIndex_clamps [of 5 "- 3" init]
    scrollToIndex_clamps [of 5 3 init]
    scrollToIndex_clamps [of 5 7 "\<lparr>active = 2,
           metricsRef = \<lparr>startY = 1000, endY = 5000, height = 5000, viewport = 1000\<rparr>,
           mounted = True, ticking = False\<rparr>"]
  by (simp add: clamp_def)

text \<open>
  C3, as stated, fails. Twelve features, a section from offset 1000 to 6654, index 6:
  \<open>startY + (i / (total - 1)) * (endY - startY)\<close> is 4084, and the code requests a
  scroll to 4083.9999999999995 (that is, \<open>4084 - 2 ^ -41\<close>).
\<close>

theorem scroll_target_not_exact:
  "snd (scrollToIndex64 12 6
      \<lparr>active = 0,
       metricsRef = \<lparr>startY = 1000, endY = 6654, height = 6168, viewport = 514\<rparr>,
       mounted = True, ticking = False\<rparr>)
     = Some (SmoothScrollTo (8980810975674367 / 2 ^ 41))
   \<and> (1000 + (of_int 6 / (of_nat 12 - 1)) * (6654 - 1000) :: rat) = 4084
   \<and> (8980810975674367 / 2 ^ 41 :: rat) \<noteq> 4084"
  using target64_12_6 by simp

text \<open>
  C3, amended. Round trip, for the metrics a browser supplies (integers of magnitude at
  most \<open>2 ^ 32\<close>, \<open>startY < endY\<close>) and at most \<open>2 ^ 16\<close> features. For an index \<open>i\<close> in
  \<open>[0, total - 1]\<close>, \<open>scrollToIndex(i)\<close> sets \<open>active = i\<close> and requests a scroll to the
  double-precision value \<open>T\<close> of \<open>startY + (i / (total - 1)) * (endY - startY)\<close> (the
  quotient read as 0 when \<open>total = 1\<close>), which is within \<open>2 ^ -18\<close> of the exact value;
  \<open>T\<close> lies in range, the index that the scroll callback computes at \<open>T\<close> is \<open>i\<close>, and the
  callback (or \<open>onScroll\<close> on a mounted component with no frame pending) sets
  \<open>active = i\<close> whatever \<open>active\<close> was before.
\<close>

theorem navigate64_then_scroll_roundtrip:
  assumes "0 \<le> i" and "i \<le> int tot - 1" and "tot \<le> 2 ^ 16"
    and "startY (metricsRef s) = of_int a" and "endY (metricsRef s) = of_int b"
    and "a < b" and "\<bar>a\<bar> \<le> 2 ^ 32" and "\<bar>b\<bar> \<le> 2 ^ 32"
    and "metricsRef s2 = metricsRef s"
  shows "let T = fl (startY (metricsRef s)
                     + fl ((if tot > 1 then fl (of_int i / (of_nat tot - 1)) else 0)
                           * fl (endY (metricsRef s) - startY (metricsRef s))))
         in snd (scrollToIndex64 tot i s) = Some (SmoothScrollTo T)
          \<and> active (fst (scrollToIndex64 tot i s)) = i
          \<and> \<bar>T - (startY (metricsRef s)
                   + (if tot = 1 then 0 else of_int i / (of_nat tot - 1))
                     * (endY (metricsRef s) - startY (metricsRef s)))\<bar> \<le> 1 / 2 ^ 18
          \<and> in_range (metricsRef s) T
          \<and> next_index64 tot (metricsRef s) T = i
          \<and> active (onScroll_frame64 tot T s2) = i
          \<and> (mounted s2 \<and> \<not> ticking s2 \<longrightarrow> active (onScroll64 tot T s2) = i)"
proof -
  let ?m = "metricsRef s"
  define t :: rat where "t = (if tot > 1 then fl (of_int i / (of_nat tot - 1)) else 0)"
  define q :: rat where "q = (if tot > 1 then of_int i / (of_nat tot - 1) else 0)"
  define T where "T = fl (of_int a + fl (t * fl (of_int b - of_int a)))"
  have tot1: "1 \<le> tot" using assms(1,2) by simp
  have c: "max 0 (min (int tot - 1) i) = i" using assms(1,2) by simp
  have lt: "startY ?m < endY ?m" using assms(4,5,6) by simp
  from roundtrip64_arith [OF assms(1,2,3,6,7,8) q_def t_def T_def]
  have lo: "of_int a \<le> T" and hi: "T \<le> of_int b"
    and near: "\<bar>T - (of_int a + q * (of_int b - of_int a))\<bar> \<le> 1 / 2 ^ 18"
    and rnd: "js_round (fl (fl (fl (T - of_int a) / fl (of_int b - of_int a)) * (of_nat tot - 1))) = i"
    by simp_all
  have Teq: "fl (startY ?m + fl ((if tot > 1 then fl (of_int i / (of_nat tot - 1)) else 0)
                                  * fl (endY ?m - startY ?m))) = T"
    by (simp only: T_def t_def assms(4,5))
  have qeq: "(if tot = 1 then 0 else of_int i / (of_nat tot - 1)) = q"
    using tot1 by (auto simp add: q_def)
  have req: "snd (scrollToIndex64 tot i s) = Some (SmoothScrollTo T)"
    unfolding scrollToIndex64_request c Teq using lt by simp
  have act: "active (fst (scrollToIndex64 tot i s)) = i"
    by (simp add: scrollToIndex64_state c)
  have near': "\<bar>T - (startY ?m + (if tot = 1 then 0 else of_int i / (of_nat tot - 1))
                        * (endY ?m - startY ?m))\<bar> \<le> 1 / 2 ^ 18"
    unfolding qeq assms(4,5) by (rule near)
  have r: "in_range ?m T"
    unfolding in_range_def using lo hi lt by (simp add: assms(4,5))
  have n: "next_index64 tot ?m T = i"
    unfolding next_index64_def progress64_def assms(4,5) by (rule rnd)
  have r2: "in_range (metricsRef s2) T" and n2: "next_index64 tot (metricsRef s2) T = i"
    using r n by (simp_all only: assms(9))
  have f: "active (onScroll_frame64 tot T s2) = i"
    using r2 n2 by (simp add: onScroll_frame64_active)
  have g: "mounted s2 \<and> \<not> ticking s2 \<longrightarrow> active (onScroll64 tot T s2) = i"
    using r2 n2 by (simp add: onScroll64_active)
  show ?thesis
    unfolding Let_def Teq using req act near' r n f g by (intro conjI)
qed

theorem navigate64_then_scroll_roundtrip_witness:
  "snd (scrollToIndex64 12 6
      \<lparr>active = 0,
       metricsRef = \<lparr>startY = 1000, endY = 6654, height = 6168, viewport = 514\<rparr>,
       mounted = True, ticking = False\<rparr>)
     = Some (SmoothScrollTo (8980810975674367 / 2 ^ 41))
   \<and> active (onScroll64 12 (8980810975674367 / 2 ^ 41)
      \<lparr>active = 0,
       metricsRef = \<lparr>startY = 1000, endY = 6654, height = 6168, viewport = 514\<rparr>,
       mounted = True, ticking = False\<rparr>) = 6"
proof -
  let ?s = "\<lparr>active = 0,
       metricsRef = \<lparr>startY = 1000, endY = 6654, height = 6168, viewport = 514\<rparr>,
       mounted = True, ticking = False\<rparr>"
  have T: "fl (startY (metricsRef ?s)
               + fl ((if (12::nat) > 1 then fl (of_int 6 / (of_nat 12 - 1)) else 0)
                     * fl (endY (metricsRef ?s) - startY (metricsRef ?s))))
             = 8980810975674367 / 2 ^ 41"
    using target64_12_6 by (simp add: scrollToIndex64_request)
  from navigate64_then_scroll_roundtrip [of 6 12 ?s 1000 6654 ?s]
  have "let T = fl (startY (metricsRef ?s)
                     + fl ((if (12::nat) > 1 then fl (of_int 6 / (of_nat 12 - 1)) else 0)
                           * fl (endY (metricsRef ?s) - startY (metricsRef ?s))))
         in snd (scrollToIndex64 12 6 ?s) = Some (SmoothScrollTo T)
          \<and> active (onScroll64 12 T ?s) = 6"
    by (simp add: Let_def)
  then show ?thesis
    unfolding Let_def T .
qed




text \<open>
  C7. Frame condition of \<open>onScroll\<close>: when \<open>y\<close> is outside \<open>[startY, endY]\<close>, or
  \<open>endY \<le> startY\<close>, or the section element is missing, \<open>onScroll\<close> leaves \<open>active\<close> and the
  cached metrics as they were (the whole state, in fact); on a mounted component the
  frame callback leaves both as well.
\<close>

theorem onScroll_noop_outside_range:
  assumes "y < startY (metricsRef s) \<or> endY (metricsRef s) < y
           \<or> endY (metricsRef s) \<le> startY (metricsRef s) \<or> \<not> mounted s"
  shows "active (onScroll tot y s) = active s
       \<and> metricsRef (onScroll tot y s) = metricsRef s
       \<and> onScroll tot y s = s
       \<and> (mounted s \<longrightarrow> active (onScroll_frame tot y s) = active s
                        \<and> metricsRef (onScroll_frame tot y s) = metricsRef s)"
proof -
  have u: "\<not> in_range (metricsRef s) y \<or> \<not> mounted s \<or> ticking s"
    using assms unfolding in_range_def by auto
  have e: "onScroll tot y s = s"
    using u by (rule onScroll_unchanged)
  have f: "mounted s \<longrightarrow> active (onScroll_frame tot y s) = active s"
    using assms by (auto simp add: onScroll_frame_active in_range_def)
  show ?thesis
    using e f by (simp add: onScroll_frame_metricsRef)
qed

theorem onScroll_noop_outside_range_witness:
  "onScroll 5 500 \<lparr>active = 2,
           metricsRef = \<lparr>startY = 1000, endY = 5000, height = 5000, viewport = 1000\<rparr>,
           mounted = True, ticking = False\<rparr>
     = \<lparr>active = 2,
           metricsRef = \<lparr>startY = 1000, endY = 5000, height = 5000, viewport = 1000\<rparr>,
           mounted = True, ticking = False\<rparr>
   \<and> onScroll 5 5001 \<lparr>active = 2,
           metricsRef = \<lparr>startY = 1000, endY = 5000, height = 5000, viewport = 1000\<rparr>,
           mounted = True, ticking = False\<rparr>
     = \<lparr>active = 2,
           metricsRef = \<lparr>startY = 1000, endY = 5000, height = 5000, viewport = 1000\<rparr>,
           mounted = True, ticking = False\<rparr>
   \<and> onScroll 5 1000 \<lparr>active = 2,
           metricsRef = \<lparr>startY = 1000, endY = 1000, height = 1000, viewport = 1000\<rparr>,
           mounted = True, ticking = False\<rparr>
     = \<lparr>active = 2,
           metricsRef = \<lparr>startY = 1000, endY = 1000, height = 1000, viewport = 1000\<rparr>,
           mounted = True, ticking = False\<rparr>
   \<and> onScroll 5 0 init = init"
  using onScroll_noop_outside_range [of 500 "\<lparr>active = 2,
           metricsRef = \<lparr>startY = 1000, endY = 5000, height = 5000, viewport = 1000\<rparr>,
           mounted = True, ticking = False\<rparr>" 5]
    onScroll_noop_outside_range [of 5001 "\<lparr>active = 2,
           metricsRef = \<lparr>startY = 1000, endY = 5000, height = 5000, viewport = 1000\<rparr>,
           mounted = True, ticking = False\<rparr>" 5]
    onScroll_noop_outside_range [of 1000 "\<lparr>active = 2,
           metricsRef = \<lparr>startY = 1000, endY = 1000, height = 1000, viewport = 1000\<rparr>,
           mounted = True, ticking = False\<rparr>" 5]
    onScroll_noop_outside_range [of 0 init 5]
  by (simp add: init_def)




text \<open>
  C6. A single feature (\<open>total = 1\<close>): the index computed by the scroll callback is 0
  at every offset, \<open>active\<close> is 0 after every sequence of events, \<open>onScroll\<close> leaves it
  0, and \<open>scrollToIndex\<close>, \<open>onPrev\<close> and \<open>onNext\<close> return the state they were given. The
  step fraction is 0: the only scroll such a call can request is one to \<open>startY\<close>, and
  none is requested when \<open>endY \<le> startY\<close>.
\<close>

theorem single_feature_list:
  "(in_range m y \<longrightarrow> next_index 1 m y = 0)
   \<and> active (run 1 evs init) = 0
   \<and> (active s = 0 \<longrightarrow>
         active (onScroll 1 y s) = 0
       \<and> active (onScroll_frame 1 y s) = 0
       \<and> fst (scrollToIndex 1 n s) = s
       \<and> fst (onPrev 1 s) = s
       \<and> fst (onNext 1 s) = s)
   \<and> snd (scrollToIndex 1 n s) =
        (if endY (metricsRef s) \<le> startY (metricsRef s) then None
         else Some (SmoothScrollTo (startY (metricsRef s))))"
proof (intro conjI impI)
  show "next_index 1 m y = 0"
    by (rule next_index_one)
next
  have "valid_index 1 (active (run 1 evs init))"
    by (rule run_valid [OF _ init_valid]) simp_all
  then show "active (run 1 evs init) = 0"
    by (rule iffD1 [OF valid_index_one])
  show "snd (scrollToIndex 1 n s) =
        (if endY (metricsRef s) \<le> startY (metricsRef s) then None
         else Some (SmoothScrollTo (startY (metricsRef s))))"
    by (simp add: scrollToIndex_request)
next
  assume a: "active s = 0"
  show "active (onScroll 1 y s) = 0"
    unfolding onScroll_active next_index_one using a by simp
  show "active (onScroll_frame 1 y s) = 0"
    unfolding onScroll_frame_active next_index_one using a by simp
  have c: "max 0 (min (int 1 - 1) k) = 0" for k :: int
    by simp
  have u: "s\<lparr>active := 0\<rparr> = s"
    using a by simp
  show "fst (scrollToIndex 1 n s) = s"
    unfolding scrollToIndex_state c by (rule u)
  show "fst (onPrev 1 s) = s"
    unfolding onPrev_def scrollToIndex_state c by (rule u)
  show "fst (onNext 1 s) = s"
    unfolding onNext_def scrollToIndex_state c by (rule u)
qed

theorem single_feature_list_witness:
  "next_index 1 \<lparr>startY = 200, endY = 300, height = 1000, viewport = 900\<rparr> 300 = 0
   \<and> active (onScroll 1 300
        (effect 1 \<lparr>offsetTop = 200, offsetHeight = 1000, innerHeight = 900\<rparr> 0 init)) = 0
   \<and> fst (onNext 1 (effect 1 \<lparr>offsetTop = 200, offsetHeight = 1000, innerHeight = 900\<rparr> 0 init))
       = effect 1 \<lparr>offsetTop = 200, offsetHeight = 1000, innerHeight = 900\<rparr> 0 init
   \<and> fst (onPrev 1 init) = init"
  using single_feature_list [of "\<lparr>startY = 200, endY = 300, height = 1000, viewport = 900\<rparr>"
      300 "[]" "effect 1 \<lparr>offsetTop = 200, offsetHeight = 1000, innerHeight = 900\<rparr> 0 init" 0]
    single_feature_list [of "\<lparr>startY = 200, endY = 300, height = 1000, viewport = 900\<rparr>"
      300 "[]" init 0]
  by (simp add: effect_def computeMetrics_def onScroll_active init_def in_range_def)

text \<open>
  C8, as stated, fails. Five features, a section from offset 1000 to 5000, the page
  just loaded at offset 0: \<open>active\<close> is 0, and \<open>onPrev\<close> requests a smooth scroll to
  offset 1000.
\<close>

theorem boundary_navigation_requests_scroll:
  "active (effect 5 \<lparr>offsetTop = 1000, offsetHeight = 5000, innerHeight = 1000\<rparr> 0 init) = 0
   \<and> snd (onPrev 5 (effect 5 \<lparr>offsetTop = 1000, offsetHeight = 5000, innerHeight = 1000\<rparr> 0 init))
       = Some (SmoothScrollTo 1000)
   \<and> snd (onPrev 5 (effect 5 \<lparr>offsetTop = 1000, offsetHeight = 5000, innerHeight = 1000\<rparr> 0 init))
       \<noteq> None"
  by (simp add: onPrev_def scrollToIndex_request effect_def computeMetrics_def
      onScroll_active onScroll_metricsRef in_range_def init_def)

text \<open>
  C8, amended. \<open>onPrev\<close> and \<open>onNext\<close> are \<open>scrollToIndex(active - 1)\<close> and
  \<open>scrollToIndex(active + 1)\<close>. At the boundaries (\<open>onPrev\<close> at \<open>active = 0\<close>, \<open>onNext\<close> at
  \<open>active = total - 1\<close> of a non-empty list) they return the state unchanged, and they
  still request a smooth scroll to the offset of the boundary step (\<open>startY\<close>, and
  \<open>endY\<close> for the last of several features) unless \<open>endY \<le> startY\<close>.
\<close>

theorem prev_next_at_boundaries:
  "onPrev tot s = scrollToIndex tot (active s - 1) s
   \<and> onNext tot s = scrollToIndex tot (active s + 1) s
   \<and> (active s = 0 \<longrightarrow>
         fst (onPrev tot s) = s
       \<and> snd (onPrev tot s) =
           (if endY (metricsRef s) \<le> startY (metricsRef s) then None
            else Some (SmoothScrollTo (startY (metricsRef s)))))
   \<and> (1 \<le> tot \<and> active s = int tot - 1 \<longrightarrow>
         fst (onNext tot s) = s
       \<and> snd (onNext tot s) =
           (if endY (metricsRef s) \<le> startY (metricsRef s) then None
            else Some (SmoothScrollTo
                   (if tot = 1 then startY (metricsRef s) else endY (metricsRef s)))))"
proof (intro conjI impI)
  show "onPrev tot s = scrollToIndex tot (active s - 1) s"
    by (simp add: onPrev_def)
  show "onNext tot s = scrollToIndex tot (active s + 1) s"
    by (simp add: onNext_def)
next
  assume a: "active s = 0"
  have c: "max 0 (min (int tot - 1) (active s - 1)) = 0"
    using a by simp
  show "fst (onPrev tot s) = s"
    unfolding onPrev_def scrollToIndex_state c using a by simp
  show "snd (onPrev tot s) =
           (if endY (metricsRef s) \<le> startY (metricsRef s) then None
            else Some (SmoothScrollTo (startY (metricsRef s))))"
    unfolding onPrev_def scrollToIndex_request c by simp
next
  assume h: "1 \<le> tot \<and> active s = int tot - 1"
  have c: "max 0 (min (int tot - 1) (active s + 1)) = int tot - 1"
    using h by simp
  have u: "s\<lparr>active := int tot - 1\<rparr> = s"
    using h by simp
  show "fst (onNext tot s) = s"
    unfolding onNext_def scrollToIndex_state c by (rule u)
  have q: "tot > 1 \<Longrightarrow> (of_int (int tot - 1) :: rat) / (of_nat tot - 1) = 1"
    by simp
  show "snd (onNext tot s) =
           (if endY (metricsRef s) \<le> startY (metricsRef s) then None
            else Some (SmoothScrollTo
                   (if tot = 1 then startY (metricsRef s) else endY (metricsRef s))))"
    unfolding onNext_def scrollToIndex_request c using h q by auto
qed

theorem prev_next_at_boundaries_witness:
  "onPrev 5 \<lparr>active = 0,
           metricsRef = \<lparr>startY = 1000, endY = 5000, height = 5000, viewport = 1000\<rparr>,
           mounted = True, ticking = False\<rparr>
     = (\<lparr>active = 0,
           metricsRef = \<lparr>startY = 1000, endY = 5000, height = 5000, viewport = 1000\<rparr>,
           mounted = True, ticking = False\<rparr>, Some (SmoothScrollTo 1000))
   \<and> onNext 5 \<lparr>active = 4,
           metricsRef = \<lparr>startY = 1000, endY = 5000, height = 5000, viewport = 1000\<rparr>,
           mounted = True, ticking = False\<rparr>
     = (\<lparr>active = 4,
           metricsRef = \<lparr>startY = 1000, endY = 5000, height = 5000, viewport = 1000\<rparr>,
           mounted = True, ticking = False\<rparr>, Some (SmoothScrollTo 5000))
   \<and> onPrev 5 init = (init, None)"
  using prev_next_at_boundaries [of 5 "\<lparr>active = 0,
           metricsRef = \<lparr>startY = 1000, endY = 5000, height = 5000, viewport = 1000\<rparr>,
           mounted = True, ticking = False\<rparr>"]
    prev_next_at_boundaries [of 5 "\<lparr>active = 4,
           metricsRef = \<lparr>startY = 1000, endY = 5000, height = 5000, viewport = 1000\<rparr>,
           mounted = True, ticking = False\<rparr>"]
    prev_next_at_boundaries [of 5 init]
  by (simp add: prod_eq_iff init_def onPrev_def onNext_def scrollToIndex_state
      scrollToIndex_request)

text \<open>
  C9, as stated, fails for the empty list: the height is not \<open>0 * 100\<close> vh.
\<close>

theorem empty_list_height_not_zero: "section_height_vh 0 \<noteq> 0 * 100"
  by (simp add: section_height_vh_def)

text \<open>
  C9, amended. The height of the section is \<open>max(1, total) * 100\<close> vh: \<open>total * 100\<close> vh
  for every non-empty feature list, and 100 vh for the empty one. Every render that
  succeeds shows a section of \<open>total * 100\<close> vh.
\<close>

theorem rendered_section_height:
  "section_height_vh tot = max 1 tot * 100
   \<and> (1 \<le> tot \<longrightarrow> section_height_vh tot = tot * 100)
   \<and> section_height_vh 0 = 100
   \<and> (render features s = Inr v \<longrightarrow> height_vh v = length features * 100)"
proof (intro conjI impI)
  show "section_height_vh tot = max 1 tot * 100"
    by (simp add: section_height_vh_def)
  show "section_height_vh 0 = 100"
    by (simp add: section_height_vh_def)
next
  assume "1 \<le> tot"
  then show "section_height_vh tot = tot * 100"
    by (simp add: section_height_vh_def max_def)
next
  assume r: "render features s = Inr v"
  then obtain f where c: "current features (active s) = Some f"
    unfolding render_def by (auto split: option.splits)
  then have "1 \<le> length features"
    unfolding current_def by (auto split: if_splits)
  then have "section_height_vh (length features) = length features * 100"
    by (simp add: section_height_vh_def max_def)
  with r c show "height_vh v = length features * 100"
    unfolding render_def by auto
qed

theorem rendered_section_height_witness:
  "section_height_vh 5 = 500
   \<and> render FEATURES init =
       Inr \<lparr>height_vh = 500, label_no = 1, heading = ''Smart Inbox'',
            description = ''Automatically prioritizes important conversations so you focus on what matters first.''\<rparr>"
proof -
  have r: "render FEATURES init =
       Inr \<lparr>height_vh = section_height_vh (length FEATURES), label_no = 1, heading = ''Smart Inbox'',
            description = ''Automatically prioritizes important conversations so you focus on what matters first.''\<rparr>"
    by (simp add: render_def current_def init_def FEATURES_def)
  from rendered_section_height [of 5 FEATURES init
      "\<lparr>height_vh = section_height_vh (length FEATURES), label_no = 1, heading = ''Smart Inbox'',
        description = ''Automatically prioritizes important conversations so you focus on what matters first.''\<rparr>"]
  show ?thesis
    using r by (simp add: length_FEATURES)
qed

text \<open>
  C10. The empty feature list (\<open>total = 0\<close>): every call of \<open>scrollToIndex\<close> leaves
  \<open>active = 0\<close>, which is not a valid index (no index is), \<open>features[active]\<close> is
  \<open>undefined\<close> and the render fails on it, after such a call and in every state.
\<close>

theorem empty_feature_list:
  "active (fst (scrollToIndex 0 n s)) = 0
   \<and> \<not> valid_index 0 (active (fst (scrollToIndex 0 n s)))
   \<and> current [] (active (fst (scrollToIndex 0 n s))) = None
   \<and> render [] (fst (scrollToIndex 0 n s)) = Inl TypeError
   \<and> \<not> valid_index 0 a
   \<and> render [] s = Inl TypeError"
  by (simp add: scrollToIndex_state valid_index_def current_def render_def)

end
